theory Spec2Isabelle
  imports Complex_Main "HOL-Library.Word" "HOL-Library.AList"
begin

section \<open>Conventions of the embedding\<close>

text \<open>
  The C++ type \<open>double\<close> is modelled by \<^typ>\<open>real\<close>: the accumulators hold finite
  values and arithmetic on them is exact. Rounding and overflow to infinity are outside the
  model. A division by zero, which in C++ yields an infinity or a NaN, is not silently
  turned into HOL's \<open>x / 0 = 0\<close>: every function that divides returns \<open>Inl NotFinite\<close>
  there. Indexing a \<open>std::vector\<close> outside its bounds (undefined behaviour in C++)
  or converting a \<open>double\<close> to an integer type that cannot hold it
  is \<open>Inl OutOfRange\<close>, a call of \<open>exit(n)\<close> is \<open>Inl (Exit n)\<close>, and a loop that
  never ends is \<open>Inl Diverges\<close>.
  The C++ type \<open>long\<close> is a 64-bit word, \<open>int\<close> region indices and levels are
  \<^typ>\<open>int\<close> (no arithmetic on them leaves the 32-bit range).
\<close>

datatype fault = OutOfRange | NotFinite | Exit nat | Diverges

definition ddiv :: "real \<Rightarrow> real \<Rightarrow> fault + real" where
  "ddiv x y = (if y = 0 then Inl NotFinite else Inr (x / y))"

definition vec_add :: "'a::plus list \<Rightarrow> nat \<Rightarrow> 'a \<Rightarrow> fault + 'a list" where
  "vec_add v k x = (if k < length v then Inr (v[k := v ! k + x]) else Inl OutOfRange)"

definition vec_get :: "'a list \<Rightarrow> int \<Rightarrow> fault + 'a" where
  "vec_get v k = (if 0 \<le> k \<and> nat k < length v then Inr (v ! nat k) else Inl OutOfRange)"

text \<open>The loop \<open>for (int k = 0; k < n_region_; k++) body\<close>, run over the indices in order
  and stopped by the first fault.\<close>

fun for_regions :: "nat list \<Rightarrow> (nat \<Rightarrow> 's \<Rightarrow> fault + 's) \<Rightarrow> 's \<Rightarrow> fault + 's" where
  "for_regions [] body s = Inr s"
| "for_regions (k # ks) body s =
     (case body k s of Inl e \<Rightarrow> Inl e | Inr s' \<Rightarrow> for_regions ks body s')"


section \<open>angular\_bin (src/s2omp/angular\_bin-inl.h)\<close>

text \<open>The private data of the class. The fields \<open>wtheta_\<close> and \<open>wtheta_error_\<close> are
  \<open>wtheta_field\<close> and \<open>wtheta_error_field\<close> here, the methods keep their names.\<close>

record angular_bin =
  theta_min :: real
  theta_max :: real
  theta :: real
  costheta_min :: real
  costheta_max :: real
  sin2theta_min :: real
  sin2theta_max :: real
  pair_weight :: real
  gal_gal :: real
  gal_rand :: real
  rand_gal :: real
  rand_rand :: real
  pixel_wtheta :: real
  pixel_weight :: real
  wtheta_field :: real
  wtheta_error_field :: real
  pair_count :: "64 word"
  pair_weight_region :: "real list"
  gal_gal_region :: "real list"
  gal_rand_region :: "real list"
  rand_gal_region :: "real list"
  rand_rand_region :: "real list"
  pixel_wtheta_region :: "real list"
  pixel_weight_region :: "real list"
  wtheta_region :: "real list"
  wtheta_error_region :: "real list"
  pair_counts_region :: "64 word list"
  level :: int
  n_region :: int
  set_wtheta_error :: bool
  set_wtheta :: bool

definition DEG_TO_RAD :: real where
  "DEG_TO_RAD = pi / 180"

definition set_theta_min :: "real \<Rightarrow> angular_bin \<Rightarrow> angular_bin" where
  "set_theta_min t b =
     b\<lparr>theta_min := t,
       sin2theta_min := sin (t * DEG_TO_RAD) * sin (t * DEG_TO_RAD),
       costheta_max := cos (t * DEG_TO_RAD)\<rparr>"

definition set_theta_max :: "real \<Rightarrow> angular_bin \<Rightarrow> angular_bin" where
  "set_theta_max t b =
     b\<lparr>theta_max := t,
       sin2theta_max := sin (t * DEG_TO_RAD) * sin (t * DEG_TO_RAD),
       costheta_min := cos (t * DEG_TO_RAD)\<rparr>"

definition clear_regions :: "angular_bin \<Rightarrow> angular_bin" where
  "clear_regions b =
     b\<lparr>pair_weight_region := [], pair_counts_region := [],
       gal_gal_region := [], gal_rand_region := [],
       rand_gal_region := [], rand_rand_region := [],
       pixel_wtheta_region := [], pixel_weight_region := [],
       wtheta_region := [], wtheta_error_region := [],
       n_region := 0\<rparr>"

text \<open>\<open>init_regions\<close> pushes \<open>n_regions\<close> zeros onto each of the ten cleared vectors.\<close>

definition init_regions :: "int \<Rightarrow> angular_bin \<Rightarrow> angular_bin" where
  "init_regions n_regions b =
     (let b = clear_regions b in
      if n_regions < 0 then b
      else b\<lparr>n_region := n_regions,
             pair_weight_region := replicate (nat n_regions) 0,
             pair_counts_region := replicate (nat n_regions) 0,
             gal_gal_region := replicate (nat n_regions) 0,
             gal_rand_region := replicate (nat n_regions) 0,
             rand_gal_region := replicate (nat n_regions) 0,
             rand_rand_region := replicate (nat n_regions) 0,
             pixel_wtheta_region := replicate (nat n_regions) 0,
             pixel_weight_region := replicate (nat n_regions) 0,
             wtheta_region := replicate (nat n_regions) 0,
             wtheta_error_region := replicate (nat n_regions) 0\<rparr>)"

text \<open>The constructor \<open>angular_bin(theta_min, theta_max, n_regions)\<close>; the two fields
  the constructor leaves to \<open>set_theta\<close> start at 0 here.\<close>

definition new_angular_bin :: "real \<Rightarrow> real \<Rightarrow> int \<Rightarrow> angular_bin" where
  "new_angular_bin tmin tmax n_regions =
     init_regions n_regions
       (set_theta_max tmax (set_theta_min tmin
         \<lparr>theta_min = 0, theta_max = 0, theta = 0,
          costheta_min = 0, costheta_max = 0, sin2theta_min = 0, sin2theta_max = 0,
          pair_weight = 0, gal_gal = 0, gal_rand = 0, rand_gal = 0, rand_rand = 0,
          pixel_wtheta = 0, pixel_weight = 0, wtheta_field = 0, wtheta_error_field = 0,
          pair_count = 0,
          pair_weight_region = [], gal_gal_region = [], gal_rand_region = [],
          rand_gal_region = [], rand_rand_region = [],
          pixel_wtheta_region = [], pixel_weight_region = [],
          wtheta_region = [], wtheta_error_region = [],
          pair_counts_region = [],
          level = - 1, n_region = 0,
          set_wtheta_error = False, set_wtheta = False\<rparr>))"

text \<open>\<open>regions_initialized\<close> compares the size of eight of the vectors with
  \<open>n_region_\<close>; it leaves the process with \<open>exit(1)\<close> at the first mismatch and
  never returns false.\<close>

definition regions_initialized :: "angular_bin \<Rightarrow> fault + bool" where
  "regions_initialized b =
     (if int (length (pair_weight_region b)) \<noteq> n_region b then Inl (Exit 1)
      else if int (length (pair_counts_region b)) \<noteq> n_region b then Inl (Exit 1)
      else if int (length (gal_gal_region b)) \<noteq> n_region b then Inl (Exit 1)
      else if int (length (gal_rand_region b)) \<noteq> n_region b then Inl (Exit 1)
      else if int (length (rand_gal_region b)) \<noteq> n_region b then Inl (Exit 1)
      else if int (length (rand_rand_region b)) \<noteq> n_region b then Inl (Exit 1)
      else if int (length (pixel_weight_region b)) \<noteq> n_region b then Inl (Exit 1)
      else if int (length (pixel_wtheta_region b)) \<noteq> n_region b then Inl (Exit 1)
      else Inr True)"

subsection \<open>Deposits with region bookkeeping\<close>

definition add_to_pixel_wtheta ::
  "real \<Rightarrow> real \<Rightarrow> int \<Rightarrow> int \<Rightarrow> angular_bin \<Rightarrow> fault + angular_bin" where
  "add_to_pixel_wtheta dwtheta dweight region_a region_b b =
     (let b = b\<lparr>pixel_wtheta := pixel_wtheta b + dwtheta,
                pixel_weight := pixel_weight b + dweight\<rparr> in
      if region_a \<noteq> - 1 \<and> region_b \<noteq> - 1 then
        for_regions [0..<nat (n_region b)]
          (\<lambda>k b. if int k \<noteq> region_a \<and> int k \<noteq> region_b then
                   (case vec_add (pixel_wtheta_region b) k dwtheta of
                      Inl e \<Rightarrow> Inl e
                    | Inr v \<Rightarrow>
                       (case vec_add (pixel_weight_region b) k dweight of
                          Inl e \<Rightarrow> Inl e
                        | Inr u \<Rightarrow> Inr (b\<lparr>pixel_wtheta_region := v,
                                           pixel_weight_region := u\<rparr>)))
                 else Inr b) b
      else Inr b)"

definition add_to_weight :: "real \<Rightarrow> int \<Rightarrow> int \<Rightarrow> angular_bin \<Rightarrow> fault + angular_bin" where
  "add_to_weight weight region_a region_b b =
     (let b = b\<lparr>pair_weight := pair_weight b + weight\<rparr> in
      if region_a \<noteq> - 1 \<and> region_b \<noteq> - 1 then
        for_regions [0..<nat (n_region b)]
          (\<lambda>k b. if int k \<noteq> region_a \<and> int k \<noteq> region_b then
                   (case vec_add (pair_weight_region b) k weight of
                      Inl e \<Rightarrow> Inl e
                    | Inr v \<Rightarrow> Inr (b\<lparr>pair_weight_region := v\<rparr>))
                 else Inr b) b
      else Inr b)"

definition add_to_counter :: "64 word \<Rightarrow> int \<Rightarrow> int \<Rightarrow> angular_bin \<Rightarrow> fault + angular_bin" where
  "add_to_counter step region_a region_b b =
     (let b = b\<lparr>pair_count := pair_count b + step\<rparr> in
      if region_a \<noteq> - 1 \<and> region_b \<noteq> - 1 then
        for_regions [0..<nat (n_region b)]
          (\<lambda>k b. if int k \<noteq> region_a \<and> int k \<noteq> region_b then
                   (case vec_add (pair_counts_region b) k step of
                      Inl e \<Rightarrow> Inl e
                    | Inr v \<Rightarrow> Inr (b\<lparr>pair_counts_region := v\<rparr>))
                 else Inr b) b
      else Inr b)"

definition add_to_pair_wtheta ::
  "real \<Rightarrow> 64 word \<Rightarrow> int \<Rightarrow> int \<Rightarrow> angular_bin \<Rightarrow> fault + angular_bin" where
  "add_to_pair_wtheta weight step region_a region_b b =
     (let b = b\<lparr>pair_weight := pair_weight b + weight,
                pair_count := pair_count b + step\<rparr> in
      if region_a \<noteq> - 1 \<and> region_b \<noteq> - 1 then
        for_regions [0..<nat (n_region b)]
          (\<lambda>k b. if int k \<noteq> region_a \<and> int k \<noteq> region_b then
                   (case vec_add (pair_weight_region b) k weight of
                      Inl e \<Rightarrow> Inl e
                    | Inr v \<Rightarrow>
                       (case vec_add (pair_counts_region b) k step of
                          Inl e \<Rightarrow> Inl e
                        | Inr u \<Rightarrow> Inr (b\<lparr>pair_weight_region := v,
                                           pair_counts_region := u\<rparr>)))
                 else Inr b) b
      else Inr b)"

text \<open>What a deposit of \<open>x\<close> for the regions \<open>ra\<close>, \<open>rb\<close> does to one per-region vector
  of \<open>n\<close> entries: entry \<open>k\<close> receives \<open>x\<close> when \<open>k\<close> is neither region, and keeps its
  value otherwise.\<close>

definition leave_one_out :: "nat \<Rightarrow> int \<Rightarrow> int \<Rightarrow> 'a::plus \<Rightarrow> 'a list \<Rightarrow> 'a list \<Rightarrow> bool" where
  "leave_one_out n ra rb x old new \<longleftrightarrow>
     length new = length old \<and>
     (\<forall>k<n. new ! k = (if int k \<noteq> ra \<and> int k \<noteq> rb then old ! k + x else old ! k))"


subsection \<open>The estimators\<close>

definition bind_fault :: "fault + 'a \<Rightarrow> ('a \<Rightarrow> fault + 'b) \<Rightarrow> fault + 'b" where
  "bind_fault m f = (case m of Inl e \<Rightarrow> Inl e | Inr x \<Rightarrow> f x)"

text \<open>\<open>wtheta()\<close>: the value set by hand if there is one, else the Landy-Szalay estimator
  for a pair bin (level -1) and the ratio of the pixel sums for every other level.\<close>

definition wtheta :: "angular_bin \<Rightarrow> fault + real" where
  "wtheta b =
     (if set_wtheta b then Inr (wtheta_field b)
      else if level b = - 1
        then ddiv (gal_gal b - gal_rand b - rand_gal b + rand_rand b) (rand_rand b)
        else ddiv (pixel_wtheta b) (pixel_weight b))"

text \<open>\<open>wtheta(int region)\<close>: region -1 is the whole survey, a region at or above
  \<open>n_region_\<close> gives -1.0, and a negative region other than -1 indexes the vectors out of
  range.\<close>

definition wtheta_of_region :: "angular_bin \<Rightarrow> int \<Rightarrow> fault + real" where
  "wtheta_of_region b region =
     (if set_wtheta b then
        (if region = - 1 then Inr (wtheta_field b)
         else if region < n_region b then vec_get (wtheta_region b) region
         else Inr (- 1))
      else if level b = - 1 then
        (if region = - 1
           then ddiv (gal_gal b - gal_rand b - rand_gal b + rand_rand b) (rand_rand b)
         else if region < n_region b then
           bind_fault (vec_get (gal_gal_region b) region) (\<lambda>gg.
           bind_fault (vec_get (gal_rand_region b) region) (\<lambda>gr.
           bind_fault (vec_get (rand_gal_region b) region) (\<lambda>rg.
           bind_fault (vec_get (rand_rand_region b) region) (\<lambda>rr.
             ddiv (gg - gr - rg + rr) rr))))
         else Inr (- 1))
      else
        (if region = - 1 then ddiv (pixel_wtheta b) (pixel_weight b)
         else if region < n_region b then
           bind_fault (vec_get (pixel_wtheta_region b) region) (\<lambda>pw.
           bind_fault (vec_get (pixel_weight_region b) region) (\<lambda>pn.
             ddiv pw pn))
         else Inr (- 1)))"

definition mean_wtheta :: "angular_bin \<Rightarrow> fault + real" where
  "mean_wtheta b =
     for_regions [0..<nat (n_region b)]
       (\<lambda>k mean_wtheta.
          bind_fault (wtheta_of_region b (int k)) (\<lambda>w.
          bind_fault (ddiv w (1 * real_of_int (n_region b))) (\<lambda>q.
            Inr (mean_wtheta + q))))
       0"

definition mean_wtheta_error :: "angular_bin \<Rightarrow> fault + real" where
  "mean_wtheta_error b =
     bind_fault (mean_wtheta b) (\<lambda>avg_wtheta.
     bind_fault
       (for_regions [0..<nat (n_region b)]
          (\<lambda>k mean_wtheta_error.
             bind_fault (wtheta_of_region b (int k)) (\<lambda>w.
               Inr (mean_wtheta_error + (avg_wtheta - w) * (avg_wtheta - w))))
          0)
       (\<lambda>mean_wtheta_error.
          if n_region b = 0 then Inr 0
          else ddiv ((real_of_int (n_region b) - 1) * sqrt mean_wtheta_error)
                    (real_of_int (n_region b))))"

subsection \<open>Choosing the level of a bin\<close>

text \<open>\<open>find_level\<close> uses four names of \<open>core.h\<close> and \<open>pixel.h\<close>, which are not part of
  the sources at hand: the constant \<open>MAX_LEVEL\<close>, \<open>pixel::average_area\<close> and the
  comparisons \<open>double_ge\<close> and \<open>double_le\<close>. They are parameters of the model.\<close>

record core =
  MAX_LEVEL :: int
  average_area :: "int \<Rightarrow> real"
  double_ge :: "real \<Rightarrow> real \<Rightarrow> bool"
  double_le :: "real \<Rightarrow> real \<Rightarrow> bool"

definition is_within_bounds :: "core \<Rightarrow> angular_bin \<Rightarrow> real \<Rightarrow> bool" where
  "is_within_bounds c b t \<longleftrightarrow> double_ge c t (theta_min b) \<and> double_le c t (theta_max b)"

definition level_scale :: "core \<Rightarrow> int \<Rightarrow> real" where
  "level_scale c lvl = sqrt (2 * average_area c lvl)"

text \<open>The test that makes the loop of \<open>find_level\<close> stop at a level.\<close>

definition resolves :: "core \<Rightarrow> angular_bin \<Rightarrow> int \<Rightarrow> bool" where
  "resolves c b lvl \<longleftrightarrow>
     is_within_bounds c b (level_scale c lvl) \<or> level_scale c lvl < theta_min b"

function find_level_from :: "core \<Rightarrow> angular_bin \<Rightarrow> int \<Rightarrow> int" where
  "find_level_from c b lvl =
     (if lvl < MAX_LEVEL c then
        (if resolves c b lvl then lvl else find_level_from c b (lvl + 1))
      else - 1)"
  by pat_completeness auto
termination
  by (relation "measure (\<lambda>(c, b, lvl). nat (MAX_LEVEL c - lvl))") auto

declare find_level_from.simps [simp del]

definition find_level :: "core \<Rightarrow> angular_bin \<Rightarrow> angular_bin" where
  "find_level c b = b\<lparr>level := find_level_from c b 0\<rparr>"

text \<open>Modelled from the spec: \<open>core.h\<close> and \<open>pixel.h\<close> are missing; the spec gives the
  maximum level as at least 30, the average area of a level as the area of the sphere over
  the number of pixels of the level (six faces, four children per pixel), and the
  comparisons as inclusive with a tolerance of about 1e-10.\<close>

definition spec_core :: core where
  "spec_core =
     \<lparr>MAX_LEVEL = 30,
      average_area = (\<lambda>lvl. 4 * pi / (6 * 4 ^ nat lvl)),
      double_ge = (\<lambda>x y. x \<ge> y - 1 / 10 ^ 10),
      double_le = (\<lambda>x y. x \<le> y + 1 / 10 ^ 10)\<rparr>"

subsection \<open>Example bins\<close>

text \<open>A bin with two regions whose per-region pair sums give \<open>wtheta(0) = 1\<close> and
  \<open>wtheta(1) = 3\<close>.\<close>

definition jk_bin :: angular_bin where
  "jk_bin = (new_angular_bin 1 10 2)\<lparr>gal_gal_region := [0, 2], rand_rand_region := [1, 1]\<rparr>"

definition pair_bin :: angular_bin where
  "pair_bin =
     (new_angular_bin 1 10 0)\<lparr>gal_gal := 10, gal_rand := 3, rand_gal := 3, rand_rand := 4\<rparr>"

definition pixel_bin :: angular_bin where
  "pixel_bin = (new_angular_bin 1 10 0)\<lparr>pixel_wtheta := 6, pixel_weight := 3, level := 5\<rparr>"

definition wide_bin :: angular_bin where
  "wide_bin = new_angular_bin (1 / 2) 3 0"


section \<open>RegionMap (src/stomp/stomp\_base\_map.cc)\<close>

text \<open>
  The members \<open>region_map_\<close>, \<open>region_area_\<close>, \<open>n_region_\<close> and
  \<open>region_resolution_\<close> carry the prefix \<open>rm_\<close> here, and the private methods lose
  their leading underscore. A \<open>std::map\<close> is an association list, \<open>m[k] = v\<close> is
  \<^const>\<open>AList.update\<close> and \<open>m.find(k)\<close> is \<^const>\<open>map_of\<close>. Region indices are
  \<open>int16_t\<close>: they are integers here, and \<open>++\<close> on them wraps (\<open>wrap16\<close>).
  \<open>uint8_t\<close> and \<open>uint16_t\<close> region counts are 8-bit and 16-bit words, pixel indices,
  stripes and resolutions (\<open>uint32_t\<close>, never near their upper end) are natural numbers.
  A parameter that the code calls \<open>n_region\<close> is \<open>n_regions\<close> here, since
  \<open>n_region\<close> is a field of \<open>angular_bin\<close>.

  Of the class \<open>Pixel\<close> the code uses \<open>Pixnum()\<close>, \<open>Stripe(resolution)\<close> and
  \<open>Weight()\<close>, of the map being partitioned \<open>Area()\<close>, \<open>MaxResolution()\<close> and
  \<open>Coverage(pixels, resolution)\<close>, of \<open>stomp_core.h\<close> the constants
  \<open>HPixResolution\<close> and \<open>Nx0\<close> and the function \<open>Pixel::PixelArea\<close>. Their code
  is not part of the sources at hand, so they are fields of records: a pixel carries its
  index, its stripe at the resolution of the region map and its weight.
\<close>

record pixel =
  Pixnum :: nat
  Stripe :: nat
  Weight :: real

record stripe_section =
  min_stripe :: nat
  max_stripe :: nat

record BaseMap =
  Area :: real
  MaxResolution :: nat
  Coverage :: "nat \<Rightarrow> pixel list"

record stomp_core =
  HPixResolution :: nat
  Nx0 :: nat
  PixelArea :: "nat \<Rightarrow> real"

record RegionMap =
  rm_region_map :: "(nat \<times> int) list"
  rm_region_area :: "(int \<times> real) list"
  rm_n_region :: "16 word"
  rm_region_resolution :: nat

definition wrap16 :: "int \<Rightarrow> int" where
  "wrap16 x = (x + 32768) mod 65536 - 32768"

text \<open>A region map as the constructor leaves it.\<close>

definition new_RegionMap :: RegionMap where
  "new_RegionMap =
     \<lparr>rm_region_map = [], rm_region_area = [], rm_n_region = 0, rm_region_resolution = 0\<rparr>"

text \<open>\<open>ClearRegions\<close> empties \<open>region_map_\<close> and sets \<open>n_region_\<close> and
  \<open>region_resolution_\<close> to 0; it does not touch \<open>region_area_\<close>.\<close>

definition ClearRegions :: "RegionMap \<Rightarrow> RegionMap" where
  "ClearRegions rm = rm\<lparr>rm_region_map := [], rm_n_region := 0, rm_region_resolution := 0\<rparr>"

subsection \<open>The resolution of the region map\<close>

text \<open>The test \<open>Pixel::PixelArea(region_resolution) > target_area\<close> with
  \<open>target_area = base_map->Area()/(50*n_region)\<close>. For \<open>n_region = 0\<close> the target is
  an infinity or a NaN, and the test holds only for minus infinity.\<close>

definition above_target :: "stomp_core \<Rightarrow> BaseMap \<Rightarrow> 16 word \<Rightarrow> nat \<Rightarrow> bool" where
  "above_target c m n_regions res =
     (if n_regions = 0 then Area m < 0
      else PixelArea c res > Area m / real (50 * unat n_regions))"

text \<open>The loop \<open>while (... && region_resolution < 1024) region_resolution <<= 1\<close>. From
  resolution 0 it would never leave; that is the result \<open>None\<close>.\<close>

function double_resolution :: "stomp_core \<Rightarrow> BaseMap \<Rightarrow> 16 word \<Rightarrow> nat \<Rightarrow> nat option" where
  "double_resolution c m n res =
     (if above_target c m n res \<and> res < 1024 then
        (if res = 0 then None else double_resolution c m n (2 * res))
      else Some res)"
  by pat_completeness auto
termination
  by (relation "measure (\<lambda>(c, m, n, res). 1024 - res)") auto

declare double_resolution.simps [simp del]

definition FindRegionResolution ::
  "stomp_core \<Rightarrow> BaseMap \<Rightarrow> 16 word \<Rightarrow> nat \<Rightarrow> RegionMap \<Rightarrow> fault + RegionMap" where
  "FindRegionResolution c base_map n_regions region_resolution rm =
     (case (if region_resolution = 0
              then double_resolution c base_map n_regions (HPixResolution c)
              else Some region_resolution) of
        None \<Rightarrow> Inl Diverges
      | Some res \<Rightarrow>
          if res > 256 \<and> res > 2048 then Inl (Exit 1)
          else Inr (rm\<lparr>rm_region_resolution :=
                         (if res > MaxResolution base_map then MaxResolution base_map
                          else res)\<rparr>))"

subsection \<open>Stripes and sections\<close>

text \<open>\<open>_FindUniqueStripes\<close> enters the stripe of every pixel in a dictionary, reads the
  keys of the dictionary in their order and sorts them once more.\<close>

definition FindUniqueStripes :: "pixel list \<Rightarrow> nat list" where
  "FindUniqueStripes coverage_pix =
     (let stripe_dict = fold (\<lambda>p d. AList.update (Stripe p) True d) coverage_pix []
      in sort (sort (map fst stripe_dict)))"

text \<open>The first loop of \<open>_FindSections\<close>: index \<open>i\<close> runs over the stripes from the
  second on, \<open>j\<close> is the index of the section being extended.\<close>

definition contiguous_step ::
  "nat list \<Rightarrow> nat \<Rightarrow> stripe_section list \<times> nat \<Rightarrow> stripe_section list \<times> nat" where
  "contiguous_step unique_stripes i = (\<lambda>(contiguous_section, j).
     if unique_stripes ! i = unique_stripes ! (i - 1) + 1 then
       (contiguous_section
          [j := (contiguous_section ! j)\<lparr>max_stripe := unique_stripes ! i\<rparr>], j)
     else
       (contiguous_section @
          [\<lparr>min_stripe = unique_stripes ! i, max_stripe = unique_stripes ! i\<rparr>], j + 1))"

text \<open>\<open>region_width\<close> is a \<open>uint8_t\<close> cast of a \<open>double\<close>, and 1 if that is 0. The cast
  truncates; a value of 256 or more cannot be held. The region count is a \<open>uint8_t\<close>
  here, and for the count 0 the quotient under the root is not a finite number.\<close>

definition region_width :: "stomp_core \<Rightarrow> nat \<Rightarrow> real \<Rightarrow> 8 word \<Rightarrow> fault + nat" where
  "region_width c resolution map_area n_regions =
     (if n_regions = 0 \<or> map_area / real (unat n_regions) < 0 then Inl NotFinite
      else
        (let region_length = sqrt (map_area / real (unat n_regions));
             x = region_length * real (Nx0 c) * real resolution / 360
         in if 256 \<le> x then Inl OutOfRange
            else Inr (if nat \<lfloor>x\<rfloor> = 0 then 1 else nat \<lfloor>x\<rfloor>)))"

text \<open>The second loop of \<open>_FindSections\<close>, for one contiguous section: the stripes
  from \<open>min_stripe\<close> to \<open>max_stripe\<close>, with the vector of sections, the counter
  \<open>section_iter\<close> and the index \<open>j\<close> (an \<open>int32_t\<close> that starts at -1).\<close>

definition section_step ::
  "nat \<Rightarrow> nat \<Rightarrow> stripe_section list \<times> nat \<times> int \<Rightarrow> stripe_section list \<times> nat \<times> int" where
  "section_step width stripe_iter = (\<lambda>(sectionVec, section_iter, j).
     if section_iter = width then
       (sectionVec @ [\<lparr>min_stripe = stripe_iter, max_stripe = stripe_iter\<rparr>], 1, j + 1)
     else
       (sectionVec[nat j := (sectionVec ! nat j)\<lparr>max_stripe := stripe_iter\<rparr>],
        section_iter + 1, j))"

definition split_section ::
  "nat \<Rightarrow> stripe_section \<Rightarrow> stripe_section list \<times> int \<Rightarrow> stripe_section list \<times> int" where
  "split_section width sec = (\<lambda>(sectionVec, j).
     (let (sectionVec', section_iter, j') =
            fold (section_step width) [min_stripe sec..<Suc (max_stripe sec)]
              (sectionVec, width, j)
      in (sectionVec', j')))"

text \<open>\<open>_FindSections\<close>, called with an empty \<open>sectionVec\<close>. Reading
  \<open>unique_stripes[0]\<close> of an empty vector is out of range.\<close>

definition FindSections ::
  "stomp_core \<Rightarrow> nat \<Rightarrow> nat list \<Rightarrow> real \<Rightarrow> 8 word \<Rightarrow> fault + stripe_section list" where
  "FindSections c resolution unique_stripes map_area n_regions =
     (case unique_stripes of
        [] \<Rightarrow> Inl OutOfRange
      | u # us \<Rightarrow>
         (let contiguous_section =
                fst (fold (contiguous_step unique_stripes) [1..<length unique_stripes]
                       ([\<lparr>min_stripe = u, max_stripe = u\<rparr>], 0))
          in case region_width c resolution map_area n_regions of
               Inl e \<Rightarrow> Inl e
             | Inr width \<Rightarrow>
                 Inr (fst (fold (split_section width) contiguous_section ([], - 1)))))"

subsection \<open>Regionation\<close>

text \<open>The local variables of \<open>_Regionate\<close> that live across the loops, with the region
  map being filled. (\<open>n_pixel\<close> is only written, and left out.)\<close>

record regionate_state =
  region_area :: real
  running_area :: real
  region_iter :: int
  rmap :: RegionMap

definition base_map_area :: "real \<Rightarrow> pixel list \<Rightarrow> real" where
  "base_map_area unit_area coverage_pix =
     fold (\<lambda>p a. a + unit_area * Weight p) coverage_pix 0"

text \<open>\<open>mean_area\<close> and \<open>area_break\<close>. The first is read only when a pixel is reached,
  so that the list is not empty; the second is a quotient of real numbers only for
  \<open>n_region \<noteq> 0\<close>, and the test below reads it only then.\<close>

definition mean_area :: "real \<Rightarrow> pixel list \<Rightarrow> real" where
  "mean_area unit_area coverage_pix =
     base_map_area unit_area coverage_pix / real (length coverage_pix)"

definition area_break :: "real \<Rightarrow> pixel list \<Rightarrow> 8 word \<Rightarrow> real" where
  "area_break unit_area coverage_pix n_regions =
     base_map_area unit_area coverage_pix / real (unat n_regions)"

definition in_section :: "stripe_section \<Rightarrow> pixel \<Rightarrow> bool" where
  "in_section sec p \<longleftrightarrow> Stripe p \<ge> min_stripe sec \<and> Stripe p \<le> max_stripe sec"

text \<open>The test that keeps a pixel in the current region,
  \<open>region_area + 0.75*mean_area < area_break*(region_iter+1) || region_iter == n_region-1\<close>.
  For \<open>n_region = 0\<close> the break area \<open>base_map_area/n_region\<close> is plus infinity, minus
  infinity or a NaN, by the sign of the area, and so is its product with
  \<open>region_iter+1\<close>: the finite left side is below it exactly if the area times
  \<open>region_iter+1\<close> is positive.\<close>

definition stays_in_region :: "real \<Rightarrow> pixel list \<Rightarrow> 8 word \<Rightarrow> regionate_state \<Rightarrow> bool" where
  "stays_in_region unit_area coverage_pix n_regions s \<longleftrightarrow>
     (if n_regions = 0 then
        0 < base_map_area unit_area coverage_pix * real_of_int (region_iter s + 1)
      else
        region_area s + 0.75 * mean_area unit_area coverage_pix
          < area_break unit_area coverage_pix n_regions * real_of_int (region_iter s + 1))
     \<or> region_iter s = int (unat n_regions) - 1"

text \<open>The body of the inner loop of \<open>_Regionate\<close> for one pixel.\<close>

definition regionate_pixel ::
  "real \<Rightarrow> pixel list \<Rightarrow> 8 word \<Rightarrow> stripe_section \<Rightarrow> pixel \<Rightarrow> regionate_state
     \<Rightarrow> regionate_state" where
  "regionate_pixel unit_area coverage_pix n_regions sec p s =
     (if in_section sec p then
        (if stays_in_region unit_area coverage_pix n_regions s then
           s\<lparr>region_area := region_area s + Weight p * unit_area,
             rmap := (rmap s)\<lparr>rm_region_map :=
                        AList.update (Pixnum p) (region_iter s) (rm_region_map (rmap s))\<rparr>,
             running_area := running_area s + Weight p * unit_area\<rparr>
         else
           s\<lparr>rmap := (rmap s)
                \<lparr>rm_region_area :=
                   AList.update (region_iter s) (running_area s) (rm_region_area (rmap s)),
                 rm_region_map :=
                   AList.update (Pixnum p) (wrap16 (region_iter s + 1))
                     (rm_region_map (rmap s))\<rparr>,
             region_iter := wrap16 (region_iter s + 1),
             region_area := region_area s + Weight p * unit_area,
             running_area := Weight p * unit_area\<rparr>)
      else s)"

definition regionate_loops ::
  "real \<Rightarrow> pixel list \<Rightarrow> 8 word \<Rightarrow> stripe_section list \<Rightarrow> regionate_state \<Rightarrow> regionate_state" where
  "regionate_loops unit_area coverage_pix n_regions sectionVec s =
     fold (\<lambda>sec s. fold (regionate_pixel unit_area coverage_pix n_regions sec) coverage_pix s)
       sectionVec s"

text \<open>\<open>_Regionate\<close>: the two loops, and the area of the last region stored after
  them.\<close>

definition Regionate ::
  "stomp_core \<Rightarrow> pixel list \<Rightarrow> stripe_section list \<Rightarrow> 8 word \<Rightarrow> 8 word \<Rightarrow> RegionMap
     \<Rightarrow> RegionMap" where
  "Regionate c coverage_pix sectionVec n_regions starting_region_index rm =
     (let unit_area = PixelArea c (rm_region_resolution rm);
          s = regionate_loops unit_area coverage_pix n_regions sectionVec
                \<lparr>region_area = 0, running_area = 0,
                 region_iter = int (unat starting_region_index), rmap = rm\<rparr>
      in (rmap s)\<lparr>rm_region_area :=
                    AList.update (region_iter s) (running_area s)
                      (rm_region_area (rmap s))\<rparr>)"

subsection \<open>InitializeRegions and the queries\<close>

text \<open>The loop of \<open>InitializeRegions\<close> for as many regions as pixels: pixel number
  \<open>i\<close> is region \<open>i\<close>, counted in an \<open>int16_t\<close>.\<close>

definition region_per_pixel_step ::
  "pixel \<Rightarrow> (nat \<times> int) list \<times> int \<Rightarrow> (nat \<times> int) list \<times> int" where
  "region_per_pixel_step = (\<lambda>p (region_map, i).
     (AList.update (Pixnum p) i region_map, wrap16 (i + 1)))"

definition region_per_pixel :: "pixel list \<Rightarrow> (nat \<times> int) list \<Rightarrow> (nat \<times> int) list" where
  "region_per_pixel coverage_pix region_map =
     fst (fold region_per_pixel_step coverage_pix (region_map, 0))"

text \<open>The loop that ends \<open>InitializeRegions\<close>. It visits the entries of
  \<open>region_map_\<close> in the order of their keys and counts them per region in
  \<open>region_count_check\<close>, a vector of \<open>n_region\<close> zeros: an index at or above
  \<open>n_region\<close> leaves the process with \<open>exit(2)\<close>, and a negative index, which passes
  the test \<open>iter->second < n_region\<close>, indexes the vector out of range.\<close>

fun count_regions :: "nat \<Rightarrow> (nat \<times> int) list \<Rightarrow> nat list \<Rightarrow> fault + nat list" where
  "count_regions n [] region_count_check = Inr region_count_check"
| "count_regions n ((pixnum, region) # rest) region_count_check =
     (if region < int n then
        (if 0 \<le> region \<and> nat region < length region_count_check then
           count_regions n rest
             (region_count_check[nat region := region_count_check ! nat region + 1])
         else Inl OutOfRange)
      else Inl (Exit 2))"

text \<open>\<open>InitializeRegions\<close>. The call of \<open>_Regionate\<close> leaves the starting region to
  its default, taken to be 0.\<close>

definition InitializeRegions ::
  "stomp_core \<Rightarrow> BaseMap \<Rightarrow> 16 word \<Rightarrow> nat \<Rightarrow> RegionMap \<Rightarrow> fault + RegionMap" where
  "InitializeRegions c stomp_map n_regions region_resolution rm =
     bind_fault (FindRegionResolution c stomp_map n_regions region_resolution (ClearRegions rm))
       (\<lambda>rm.
     let coverage_pix = Coverage stomp_map (rm_region_resolution rm);
         n_regions = (if unat n_regions > length coverage_pix
                       then of_nat (length coverage_pix) else n_regions)
     in
     bind_fault
       (if unat n_regions = length coverage_pix then
          Inr (rm\<lparr>rm_region_map := region_per_pixel coverage_pix (rm_region_map rm)\<rparr>)
        else
          bind_fault
            (FindSections c (rm_region_resolution rm) (FindUniqueStripes coverage_pix)
               (Area stomp_map) (ucast n_regions))
            (\<lambda>sectionVec.
               Inr (Regionate c coverage_pix sectionVec (ucast n_regions) 0 rm)))
       (\<lambda>rm.
     bind_fault
       (count_regions (unat n_regions) (sort_key fst (rm_region_map rm))
          (replicate (unat n_regions) 0))
       (\<lambda>region_count_check.
          Inr (rm\<lparr>rm_n_region := of_nat (length (rm_region_area rm))\<rparr>))))"

text \<open>\<open>operator[]\<close> of \<open>std::map\<close>: it enters a missing key with the value 0.\<close>

definition map_index :: "('k \<times> 'v::zero) list \<Rightarrow> 'k \<Rightarrow> 'v \<times> ('k \<times> 'v) list" where
  "map_index m k = (case map_of m k of Some v \<Rightarrow> (v, m) | None \<Rightarrow> (0, AList.update k 0 m))"

definition Region :: "RegionMap \<Rightarrow> nat \<Rightarrow> int \<times> RegionMap" where
  "Region rm region_idx =
     (if map_of (rm_region_map rm) region_idx \<noteq> None then
        (let (r, m) = map_index (rm_region_map rm) region_idx in (r, rm\<lparr>rm_region_map := m\<rparr>))
      else (- 1, rm))"

text \<open>\<open>FindRegion\<close> builds the pixel of the point at the resolution of the region map;
  \<open>pixnum_of\<close> stands for the constructor of \<open>Pixel\<close> followed by \<open>Pixnum()\<close>.\<close>

definition FindRegion :: "('ang \<Rightarrow> nat \<Rightarrow> nat) \<Rightarrow> RegionMap \<Rightarrow> 'ang \<Rightarrow> int \<times> RegionMap" where
  "FindRegion pixnum_of rm ang =
     (let tmp_pix = pixnum_of ang (rm_region_resolution rm) in
      if map_of (rm_region_map rm) tmp_pix \<noteq> None then
        (let (r, m) = map_index (rm_region_map rm) tmp_pix in (r, rm\<lparr>rm_region_map := m\<rparr>))
      else (- 1, rm))"

definition RegionArea :: "RegionMap \<Rightarrow> int \<Rightarrow> real \<times> RegionMap" where
  "RegionArea rm region =
     (if map_of (rm_region_area rm) region \<noteq> None then
        (let (a, m) = map_index (rm_region_area rm) region in (a, rm\<lparr>rm_region_area := m\<rparr>))
      else (0, rm))"


subsection \<open>Example region maps\<close>

definition two_regions :: RegionMap where
  "two_regions = new_RegionMap\<lparr>rm_region_map := [(5, 0), (6, 1)], rm_region_resolution := 4\<rparr>"

text \<open>Four pixels in the stripes 2 and 3, the last one of weight 9, with unit area 1:
  the footprint area is 12 and the mean pixel area 3. For three regions the break area
  is 4, for two regions it is 6.\<close>

definition pixel_a :: pixel where
  "pixel_a = \<lparr>Pixnum = 10, Stripe = 2, Weight = 1\<rparr>"

definition pixel_b :: pixel where
  "pixel_b = \<lparr>Pixnum = 11, Stripe = 2, Weight = 1\<rparr>"

definition pixel_c :: pixel where
  "pixel_c = \<lparr>Pixnum = 12, Stripe = 3, Weight = 1\<rparr>"

definition pixel_d :: pixel where
  "pixel_d = \<lparr>Pixnum = 13, Stripe = 3, Weight = 9\<rparr>"

definition four_pixels :: "pixel list" where
  "four_pixels = [pixel_a, pixel_b, pixel_c, pixel_d]"

definition four_map :: BaseMap where
  "four_map = \<lparr>Area = 12, MaxResolution = 4, Coverage = (\<lambda>res. four_pixels)\<rparr>"

definition stripe_two :: stripe_section where
  "stripe_two = \<lparr>min_stripe = 2, max_stripe = 2\<rparr>"

definition stripe_three :: stripe_section where
  "stripe_three = \<lparr>min_stripe = 3, max_stripe = 3\<rparr>"

definition unit_core :: stomp_core where
  "unit_core = \<lparr>HPixResolution = 4, Nx0 = 36, PixelArea = (\<lambda>res. 1)\<rparr>"

definition empty_at_4 :: RegionMap where
  "empty_at_4 = new_RegionMap\<lparr>rm_region_resolution := 4\<rparr>"

text \<open>The region map of \<open>four_map\<close> after \<open>InitializeRegions\<close> for three regions on a new
  region map, and after a second \<open>InitializeRegions\<close>, for two regions, on that one.\<close>

definition three_asked :: RegionMap where
  "three_asked =
     \<lparr>rm_region_map = [(10, 0), (11, 0), (12, 1), (13, 1)],
      rm_region_area = [(0, 2), (1, 10)], rm_n_region = 2, rm_region_resolution = 4\<rparr>"

definition two_asked :: RegionMap where
  "two_asked =
     \<lparr>rm_region_map = [(10, 0), (11, 0), (12, 0), (13, 0)],
      rm_region_area = [(0, 12), (1, 10)], rm_n_region = 2, rm_region_resolution = 4\<rparr>"

text \<open>A map covered by 32769 pixels at every resolution.\<close>

definition pixel_count :: nat where
  "pixel_count = 32769"

definition many_pixels :: "pixel list" where
  "many_pixels = map (\<lambda>i. \<lparr>Pixnum = i, Stripe = 0, Weight = 1\<rparr>) [0..<pixel_count]"

definition many_map :: BaseMap where
  "many_map = \<lparr>Area = 1, MaxResolution = 32768, Coverage = (\<lambda>res. many_pixels)\<rparr>"

section \<open>field\_union (src/s2omp/field\_union.h)\<close>

text \<open>
  The bodies of \<open>calculate_mean_intensity\<close>, \<open>convert_to_over_density\<close> and
  \<open>convert_from_over_density\<close> (\<open>field_union.cc\<close>) and the class \<open>field_pixel\<close> are
  not part of the sources at hand; \<open>field_union.h\<close> declares the methods and the
  members. Of a field pixel the model keeps its identifier, its intensity, its weight and
  its number of points, of a field union the pixels, the mean intensity and two flags.
\<close>

record field_pixel =
  pixel_id :: "64 word"
  intensity :: real
  unmasked_weight :: real
  n_points :: nat

record field_union =
  pixels :: "field_pixel list"
  mean_intensity :: real
  converted_to_overdensity :: bool
  calculated_mean_intensity :: bool

text \<open>A loop over a vector that stops at the first fault.\<close>

fun map_fault :: "('a \<Rightarrow> fault + 'b) \<Rightarrow> 'a list \<Rightarrow> fault + 'b list" where
  "map_fault f [] = Inr []"
| "map_fault f (x # xs) =
     bind_fault (f x) (\<lambda>y. bind_fault (map_fault f xs) (\<lambda>ys. Inr (y # ys)))"

text \<open>Modelled from the spec: the body of \<open>calculate_mean_intensity\<close> is missing; the
  spec has \<open>mean = \<Sum> intensity / \<Sum> weight\<close>.\<close>

definition calculate_mean_intensity :: "field_union \<Rightarrow> fault + field_union" where
  "calculate_mean_intensity fu =
     bind_fault (ddiv (\<Sum>p\<leftarrow>pixels fu. intensity p) (\<Sum>p\<leftarrow>pixels fu. unmasked_weight p))
       (\<lambda>m. Inr (fu\<lparr>mean_intensity := m, calculated_mean_intensity := True\<rparr>))"

text \<open>Modelled from the spec: the conversion of one pixel is missing; the spec has
  \<open>overdensity = intensity/weight/mean - 1\<close> per pixel.\<close>

definition to_over_density :: "real \<Rightarrow> field_pixel \<Rightarrow> fault + field_pixel" where
  "to_over_density mean p =
     bind_fault (ddiv (intensity p) (unmasked_weight p)) (\<lambda>density.
     bind_fault (ddiv density mean) (\<lambda>ratio.
       Inr (p\<lparr>intensity := ratio - 1\<rparr>)))"

text \<open>Modelled from the spec: the body of \<open>convert_to_over_density\<close> is missing; the
  spec has the density conversion as the mean followed by the conversion of every
  pixel.\<close>

definition convert_to_over_density :: "field_union \<Rightarrow> fault + field_union" where
  "convert_to_over_density fu =
     bind_fault (calculate_mean_intensity fu) (\<lambda>fu.
     bind_fault (map_fault (to_over_density (mean_intensity fu)) (pixels fu)) (\<lambda>ps.
       Inr (fu\<lparr>pixels := ps, converted_to_overdensity := True\<rparr>)))"

text \<open>Modelled from the spec: the conversion back of one pixel is missing; the spec only
  says that it undoes the conversion (``convert + convert\_back = identity up to
  rounding''), so it is the equation \<open>overdensity = intensity/weight/mean - 1\<close> solved
  for the intensity.\<close>

definition from_over_density :: "real \<Rightarrow> field_pixel \<Rightarrow> field_pixel" where
  "from_over_density mean p = p\<lparr>intensity := (intensity p + 1) * mean * unmasked_weight p\<rparr>"

text \<open>Modelled from the spec: the body of \<open>convert_from_over_density\<close> is missing; it
  converts every pixel back with the stored mean and clears the flag.\<close>

definition convert_from_over_density :: "field_union \<Rightarrow> field_union" where
  "convert_from_over_density fu =
     fu\<lparr>pixels := map (from_over_density (mean_intensity fu)) (pixels fu),
        converted_to_overdensity := False\<rparr>"

text \<open>A field of one pixel without points, and a field of two pixels.\<close>

definition empty_field :: field_union where
  "empty_field =
     \<lparr>pixels = [\<lparr>pixel_id = 1, intensity = 0, unmasked_weight = 1, n_points = 0\<rparr>],
      mean_intensity = 0, converted_to_overdensity = False,
      calculated_mean_intensity = False\<rparr>"

definition two_pixel_field :: field_union where
  "two_pixel_field =
     \<lparr>pixels = [\<lparr>pixel_id = 1, intensity = 3, unmasked_weight = 1, n_points = 3\<rparr>,
                \<lparr>pixel_id = 2, intensity = 1, unmasked_weight = 1 / 2, n_points = 1\<rparr>],
      mean_intensity = 0, converted_to_overdensity = False,
      calculated_mean_intensity = False\<rparr>"

section \<open>The regionation as the specification describes it\<close>

text \<open>The covering pixels in the order in which the two loops of \<open>_Regionate\<close> reach
  them: section after section, the pixels of the section in the order of the list.\<close>

definition sweep :: "stripe_section list \<Rightarrow> pixel list \<Rightarrow> pixel list" where
  "sweep sectionVec coverage_pix =
     concat (map (\<lambda>sec. filter (in_section sec) coverage_pix) sectionVec)"

text \<open>The rule of the specification for the regions of a sweep, given the target area
  \<open>A\<close>, the mean pixel area \<open>mu\<close> and the number \<open>N\<close> of regions. With the area
  \<open>acc\<close> accumulated so far and the current region \<open>k\<close>, the next pixel is assigned to
  region \<open>k\<close> while \<open>acc + 0.75 * mu < (k + 1) * A\<close>, and otherwise starts region
  \<open>k + 1\<close>; the last region \<open>N - 1\<close> takes every pixel that is left. The result lists
  the region of each pixel of the sweep.\<close>

fun spec_regions :: "real \<Rightarrow> real \<Rightarrow> int \<Rightarrow> real \<Rightarrow> int \<Rightarrow> real list \<Rightarrow> int list" where
  "spec_regions A mu N acc k [] = []"
| "spec_regions A mu N acc k (a # areas) =
     (let k' = (if acc + 0.75 * mu < real_of_int (k + 1) * A \<or> k = N - 1 then k else k + 1)
      in k' # spec_regions A mu N (acc + a) k' areas)"

text \<open>The area of region \<open>k\<close> in a sweep: the sum of the areas of the pixels assigned to
  it.\<close>

definition spec_region_area :: "real list \<Rightarrow> int list \<Rightarrow> int \<Rightarrow> real" where
  "spec_region_area areas regions k =
     sum_list (map fst (filter (\<lambda>x. snd x = k) (zip areas regions)))"

section \<open>Notions used in the proofs\<close>

text \<open>A section covers a stripe; the number of sections of a list that cover it.\<close>

definition covers :: "stripe_section \<Rightarrow> nat \<Rightarrow> bool" where
  "covers sec t \<longleftrightarrow> min_stripe sec \<le> t \<and> t \<le> max_stripe sec"

definition cover_count :: "stripe_section list \<Rightarrow> nat \<Rightarrow> nat" where
  "cover_count secs t = length (filter (\<lambda>sec. covers sec t) secs)"

text \<open>The body of the inner loop for a pixel of the section.\<close>

definition visit :: "real \<Rightarrow> pixel list \<Rightarrow> 8 word \<Rightarrow> pixel \<Rightarrow> regionate_state \<Rightarrow> regionate_state" where
  "visit unit_area coverage_pix n_regions p s =
     regionate_pixel unit_area coverage_pix n_regions
       \<lparr>min_stripe = Stripe p, max_stripe = Stripe p\<rparr> p s"

text \<open>The invariant of the loops of \<open>_Regionate\<close> that start at region 0 with empty
  tables: the current region is in range, the areas stored belong to earlier regions, one
  per region, they and the running area add up to the accumulated area, and no pixel is
  assigned beyond the current region.\<close>

definition regionate_inv :: "8 word \<Rightarrow> regionate_state \<Rightarrow> bool" where
  "regionate_inv n s \<longleftrightarrow>
     0 \<le> region_iter s \<and> region_iter s \<le> int (unat n) - 1 \<and>
     (\<forall>x\<in>set (rm_region_area (rmap s)). 0 \<le> fst x \<and> fst x < region_iter s) \<and>
     distinct (map fst (rm_region_area (rmap s))) \<and>
     sum_list (map snd (rm_region_area (rmap s))) + running_area s = region_area s \<and>
     (\<forall>x\<in>set (rm_region_map (rmap s)). 0 \<le> snd x \<and> snd x \<le> region_iter s)"

section \<open>Properties of angular\_bin\<close>

subsection \<open>Facts about the constructor\<close>

lemma new_angular_bin_fields:
  "0 \<le> n \<Longrightarrow> n_region (new_angular_bin a c n) = n"
  "set_wtheta (new_angular_bin a c n) = False"
  "level (new_angular_bin a c n) = - 1"
  "theta_min (new_angular_bin a c n) = a"
  "theta_max (new_angular_bin a c n) = c"
  "0 \<le> n \<Longrightarrow> gal_rand_region (new_angular_bin a c n) = replicate (nat n) 0"
  "0 \<le> n \<Longrightarrow> rand_gal_region (new_angular_bin a c n) = replicate (nat n) 0"
  by (simp_all add: new_angular_bin_def init_regions_def clear_regions_def
      set_theta_max_def set_theta_min_def Let_def)

lemma new_angular_bin_initialized:
  "0 \<le> n \<Longrightarrow> regions_initialized (new_angular_bin a c n) = Inr True"
  by (simp add: regions_initialized_def new_angular_bin_def init_regions_def clear_regions_def
      set_theta_max_def set_theta_min_def Let_def)

lemma regions_initialized_lengths:
  assumes "regions_initialized b = Inr True"
  shows "length (pair_weight_region b) = nat (n_region b)"
    and "length (pair_counts_region b) = nat (n_region b)"
    and "length (pixel_wtheta_region b) = nat (n_region b)"
    and "length (pixel_weight_region b) = nat (n_region b)"
  using assms by (auto simp: regions_initialized_def split: if_splits)

subsection \<open>The region loop of a deposit\<close>

lemma fold_deposit_length:
  "length (fold (\<lambda>k v. if P k then v[k := v ! k + x] else v) ks v) = length v"
  by (induction ks arbitrary: v) auto

lemma fold_deposit_nth:
  "n \<le> length v \<Longrightarrow> j < length v \<Longrightarrow>
   fold (\<lambda>k v. if P k then v[k := v ! k + x] else v) [0..<n] v ! j =
     (if j < n \<and> P j then v ! j + x else v ! j)"
  by (induction n arbitrary: j) (auto simp: nth_list_update less_Suc_eq fold_deposit_length)

lemma leave_one_out_fold:
  "n \<le> length v \<Longrightarrow>
   leave_one_out n ra rb x v
     (fold (\<lambda>k v. if int k \<noteq> ra \<and> int k \<noteq> rb then v[k := v ! k + x] else v) [0..<n] v)"
  by (simp add: leave_one_out_def fold_deposit_length fold_deposit_nth)

lemma add_to_weight_loop:
  "\<forall>k\<in>set ks. k < length (pair_weight_region b) \<Longrightarrow>
   for_regions ks
     (\<lambda>k b. if P k then
               (case vec_add (pair_weight_region b) k w of
                  Inl e \<Rightarrow> Inl e
                | Inr v \<Rightarrow> Inr (b\<lparr>pair_weight_region := v\<rparr>))
             else Inr b) b =
   Inr (b\<lparr>pair_weight_region :=
          fold (\<lambda>k v. if P k then v[k := v ! k + w] else v) ks (pair_weight_region b)\<rparr>)"
  by (induction ks arbitrary: b) (auto simp: vec_add_def)

lemma add_to_counter_loop:
  "\<forall>k\<in>set ks. k < length (pair_counts_region b) \<Longrightarrow>
   for_regions ks
     (\<lambda>k b. if P k then
               (case vec_add (pair_counts_region b) k w of
                  Inl e \<Rightarrow> Inl e
                | Inr v \<Rightarrow> Inr (b\<lparr>pair_counts_region := v\<rparr>))
             else Inr b) b =
   Inr (b\<lparr>pair_counts_region :=
          fold (\<lambda>k v. if P k then v[k := v ! k + w] else v) ks (pair_counts_region b)\<rparr>)"
  by (induction ks arbitrary: b) (auto simp: vec_add_def)

lemma add_to_pair_wtheta_loop:
  "\<forall>k\<in>set ks. k < length (pair_weight_region b) \<and> k < length (pair_counts_region b) \<Longrightarrow>
   for_regions ks
     (\<lambda>k b. if P k then
               (case vec_add (pair_weight_region b) k w of
                  Inl e \<Rightarrow> Inl e
                | Inr v \<Rightarrow>
                   (case vec_add (pair_counts_region b) k st of
                      Inl e \<Rightarrow> Inl e
                    | Inr u \<Rightarrow> Inr (b\<lparr>pair_weight_region := v, pair_counts_region := u\<rparr>)))
             else Inr b) b =
   Inr (b\<lparr>pair_weight_region :=
            fold (\<lambda>k v. if P k then v[k := v ! k + w] else v) ks (pair_weight_region b),
          pair_counts_region :=
            fold (\<lambda>k v. if P k then v[k := v ! k + st] else v) ks (pair_counts_region b)\<rparr>)"
  by (induction ks arbitrary: b) (auto simp: vec_add_def)

lemma add_to_pixel_wtheta_loop:
  "\<forall>k\<in>set ks. k < length (pixel_wtheta_region b) \<and> k < length (pixel_weight_region b) \<Longrightarrow>
   for_regions ks
     (\<lambda>k b. if P k then
               (case vec_add (pixel_wtheta_region b) k dwtheta of
                  Inl e \<Rightarrow> Inl e
                | Inr v \<Rightarrow>
                   (case vec_add (pixel_weight_region b) k dweight of
                      Inl e \<Rightarrow> Inl e
                    | Inr u \<Rightarrow> Inr (b\<lparr>pixel_wtheta_region := v, pixel_weight_region := u\<rparr>)))
             else Inr b) b =
   Inr (b\<lparr>pixel_wtheta_region :=
            fold (\<lambda>k v. if P k then v[k := v ! k + dwtheta] else v) ks (pixel_wtheta_region b),
          pixel_weight_region :=
            fold (\<lambda>k v. if P k then v[k := v ! k + dweight] else v) ks (pixel_weight_region b)\<rparr>)"
  by (induction ks arbitrary: b) (auto simp: vec_add_def)

text \<open>
  Claim C1. In a bin whose \<open>N > 0\<close> regions are initialized, each of the four deposits
  with region indices \<open>0 \<le> ra < N\<close> and \<open>0 \<le> rb < N\<close> returns without a fault, adds the
  deposited amount to the global accumulator, and in the per-region vector adds it to
  entry \<open>k < N\<close> exactly when \<open>k\<close> is neither \<open>ra\<close> nor \<open>rb\<close>; the entries \<open>ra\<close> and
  \<open>rb\<close> keep their values (\<open>leave_one_out\<close>). The pair count is a C++ \<open>long\<close>: its sum
  is the sum of 64-bit words.
\<close>

theorem deposit_leave_one_out:
  assumes "regions_initialized b = Inr True"
    and "0 < n_region b"
    and "0 \<le> ra" and "ra < n_region b"
    and "0 \<le> rb" and "rb < n_region b"
  shows
   "(\<exists>b'. add_to_weight w ra rb b = Inr b' \<and>
          pair_weight b' = pair_weight b + w \<and>
          leave_one_out (nat (n_region b)) ra rb w
            (pair_weight_region b) (pair_weight_region b')) \<and>
    (\<exists>b'. add_to_counter st ra rb b = Inr b' \<and>
          pair_count b' = pair_count b + st \<and>
          leave_one_out (nat (n_region b)) ra rb st
            (pair_counts_region b) (pair_counts_region b')) \<and>
    (\<exists>b'. add_to_pair_wtheta w st ra rb b = Inr b' \<and>
          pair_weight b' = pair_weight b + w \<and>
          pair_count b' = pair_count b + st \<and>
          leave_one_out (nat (n_region b)) ra rb w
            (pair_weight_region b) (pair_weight_region b') \<and>
          leave_one_out (nat (n_region b)) ra rb st
            (pair_counts_region b) (pair_counts_region b')) \<and>
    (\<exists>b'. add_to_pixel_wtheta dw dwt ra rb b = Inr b' \<and>
          pixel_wtheta b' = pixel_wtheta b + dw \<and>
          pixel_weight b' = pixel_weight b + dwt \<and>
          leave_one_out (nat (n_region b)) ra rb dw
            (pixel_wtheta_region b) (pixel_wtheta_region b') \<and>
          leave_one_out (nat (n_region b)) ra rb dwt
            (pixel_weight_region b) (pixel_weight_region b'))"
proof -
  note len = regions_initialized_lengths [OF assms(1)]
  from assms have ne: "ra \<noteq> - 1" "rb \<noteq> - 1" by auto
  have 1: "\<exists>b'. add_to_weight w ra rb b = Inr b' \<and>
          pair_weight b' = pair_weight b + w \<and>
          leave_one_out (nat (n_region b)) ra rb w
            (pair_weight_region b) (pair_weight_region b')"
    using ne by (simp add: add_to_weight_def add_to_weight_loop len leave_one_out_fold)
  have 2: "\<exists>b'. add_to_counter st ra rb b = Inr b' \<and>
          pair_count b' = pair_count b + st \<and>
          leave_one_out (nat (n_region b)) ra rb st
            (pair_counts_region b) (pair_counts_region b')"
    using ne by (simp add: add_to_counter_def add_to_counter_loop len leave_one_out_fold)
  have 3: "\<exists>b'. add_to_pair_wtheta w st ra rb b = Inr b' \<and>
          pair_weight b' = pair_weight b + w \<and>
          pair_count b' = pair_count b + st \<and>
          leave_one_out (nat (n_region b)) ra rb w
            (pair_weight_region b) (pair_weight_region b') \<and>
          leave_one_out (nat (n_region b)) ra rb st
            (pair_counts_region b) (pair_counts_region b')"
    using ne
    by (simp add: add_to_pair_wtheta_def add_to_pair_wtheta_loop len leave_one_out_fold)
  have 4: "\<exists>b'. add_to_pixel_wtheta dw dwt ra rb b = Inr b' \<and>
          pixel_wtheta b' = pixel_wtheta b + dw \<and>
          pixel_weight b' = pixel_weight b + dwt \<and>
          leave_one_out (nat (n_region b)) ra rb dw
            (pixel_wtheta_region b) (pixel_wtheta_region b') \<and>
          leave_one_out (nat (n_region b)) ra rb dwt
            (pixel_weight_region b) (pixel_weight_region b')"
    using ne
    by (simp add: add_to_pixel_wtheta_def add_to_pixel_wtheta_loop len leave_one_out_fold)
  from 1 2 3 4 show ?thesis by blast
qed

lemma add_to_weight_example:
  "add_to_weight 5 0 1 (new_angular_bin 1 10 3) =
     Inr ((new_angular_bin 1 10 3)\<lparr>pair_weight := 5, pair_weight_region := [0, 0, 5]\<rparr>)"
  by (simp add: add_to_weight_def new_angular_bin_def init_regions_def clear_regions_def
      set_theta_max_def set_theta_min_def Let_def vec_add_def upt_rec numeral_3_eq_3)

theorem deposit_leave_one_out_witness:
  "regions_initialized (new_angular_bin 1 10 3) = Inr True \<and>
   n_region (new_angular_bin 1 10 3) = 3 \<and>
   add_to_weight 5 0 1 (new_angular_bin 1 10 3) =
     Inr ((new_angular_bin 1 10 3)\<lparr>pair_weight := 5, pair_weight_region := [0, 0, 5]\<rparr>) \<and>
   (\<exists>b'. add_to_weight 5 0 1 (new_angular_bin 1 10 3) = Inr b' \<and>
         pair_weight b' = pair_weight (new_angular_bin 1 10 3) + 5 \<and>
         leave_one_out 3 0 1 5
           (pair_weight_region (new_angular_bin 1 10 3)) (pair_weight_region b')) \<and>
   (\<exists>b'. add_to_counter 2 0 1 (new_angular_bin 1 10 3) = Inr b' \<and>
         pair_count b' = pair_count (new_angular_bin 1 10 3) + 2 \<and>
         leave_one_out 3 0 1 2
           (pair_counts_region (new_angular_bin 1 10 3)) (pair_counts_region b'))"
  using deposit_leave_one_out [of "new_angular_bin 1 10 3" 0 1 5 2 7 9]
    add_to_weight_example
  by (simp add: new_angular_bin_initialized new_angular_bin_fields)

text \<open>
  Claim C9. A deposit through \<open>add_to_weight\<close>, \<open>add_to_counter\<close> or
  \<open>add_to_pixel_wtheta\<close> in which one of the two region indices is -1 adds the deposited
  amount to the global accumulator and changes nothing else in the bin: every per-region
  vector is as before.
\<close>

theorem deposit_unassigned_region:
  assumes "ra = - 1 \<or> rb = - 1"
  shows "add_to_weight w ra rb b = Inr (b\<lparr>pair_weight := pair_weight b + w\<rparr>) \<and>
    add_to_counter st ra rb b = Inr (b\<lparr>pair_count := pair_count b + st\<rparr>) \<and>
    add_to_pixel_wtheta dw dwt ra rb b =
      Inr (b\<lparr>pixel_wtheta := pixel_wtheta b + dw, pixel_weight := pixel_weight b + dwt\<rparr>)"
  using assms
  by (auto simp: add_to_weight_def add_to_counter_def add_to_pixel_wtheta_def Let_def)

theorem deposit_unassigned_region_witness:
  "add_to_weight 5 (- 1) 0 (new_angular_bin 1 10 3) =
     Inr ((new_angular_bin 1 10 3)
            \<lparr>pair_weight := pair_weight (new_angular_bin 1 10 3) + 5\<rparr>) \<and>
   add_to_counter 2 (- 1) 0 (new_angular_bin 1 10 3) =
     Inr ((new_angular_bin 1 10 3)
            \<lparr>pair_count := pair_count (new_angular_bin 1 10 3) + 2\<rparr>) \<and>
   add_to_pixel_wtheta 7 9 (- 1) 0 (new_angular_bin 1 10 3) =
     Inr ((new_angular_bin 1 10 3)
            \<lparr>pixel_wtheta := pixel_wtheta (new_angular_bin 1 10 3) + 7,
             pixel_weight := pixel_weight (new_angular_bin 1 10 3) + 9\<rparr>)"
  using deposit_unassigned_region [of "- 1" 0 5 "new_angular_bin 1 10 3" 2 7 9]
  by simp

subsection \<open>The estimators\<close>

text \<open>
  Claim C2. In a bin whose value of w(theta) has not been set by hand, \<open>wtheta()\<close> is
  \<open>(GG - GR - RG + RR) / RR\<close> of the four global pair sums when the level is -1, and
  \<open>pixel_wtheta_ / pixel_weight_\<close> when the level is at least 0. Where the divisor is 0
  the C++ value is an infinity or a NaN (\<open>ddiv\<close> gives \<open>Inl NotFinite\<close>); elsewhere it
  is the quotient.
\<close>

theorem wtheta_estimators:
  assumes "\<not> set_wtheta b"
  shows "(level b = - 1 \<longrightarrow>
           wtheta b = ddiv (gal_gal b - gal_rand b - rand_gal b + rand_rand b) (rand_rand b)) \<and>
         (level b = - 1 \<and> rand_rand b \<noteq> 0 \<longrightarrow>
           wtheta b = Inr ((gal_gal b - gal_rand b - rand_gal b + rand_rand b) / rand_rand b)) \<and>
         (0 \<le> level b \<longrightarrow> wtheta b = ddiv (pixel_wtheta b) (pixel_weight b)) \<and>
         (0 \<le> level b \<and> pixel_weight b \<noteq> 0 \<longrightarrow>
           wtheta b = Inr (pixel_wtheta b / pixel_weight b))"
  using assms by (simp add: wtheta_def ddiv_def)

theorem wtheta_estimators_witness:
  "\<not> set_wtheta pair_bin \<and> level pair_bin = - 1 \<and> wtheta pair_bin = Inr ((10 - 3 - 3 + 4) / 4) \<and>
   \<not> set_wtheta pixel_bin \<and> level pixel_bin = 5 \<and> wtheta pixel_bin = Inr (6 / 3)"
  using wtheta_estimators [of pair_bin] wtheta_estimators [of pixel_bin]
  by (simp add: pair_bin_def pixel_bin_def new_angular_bin_fields ddiv_def)

subsection \<open>Jackknife mean and error\<close>

lemma mean_loop:
  "\<forall>k\<in>set ks. f k = Inr (w k) \<Longrightarrow> n \<noteq> 0 \<Longrightarrow>
   for_regions ks
     (\<lambda>k acc. bind_fault (f k) (\<lambda>x. bind_fault (ddiv x n) (\<lambda>q. Inr (acc + q)))) a
     = Inr (a + (\<Sum>k\<leftarrow>ks. w k / n))" for n :: real
  by (induction ks arbitrary: a) (auto simp: bind_fault_def ddiv_def)

lemma diff_times_self: "(m - x) * (m - x) = (x - m)\<^sup>2" for m x :: real
  by (simp add: power2_eq_square algebra_simps)

lemma square_loop:
  "\<forall>k\<in>set ks. f k = Inr (w k) \<Longrightarrow>
   for_regions ks (\<lambda>k acc. bind_fault (f k) (\<lambda>x. Inr (acc + (m - x) * (m - x)))) a
     = Inr (a + (\<Sum>k\<leftarrow>ks. (w k - m)\<^sup>2))" for m :: real
  by (induction ks arbitrary: a) (auto simp: bind_fault_def diff_times_self add.assoc)

lemma sum_list_upt: "(\<Sum>k\<leftarrow>[0..<n]. g k) = (\<Sum>k<n. g k)"
  by (simp add: sum_list_sum_nth atLeast0LessThan)

lemma jk_bin_regions:
  "n_region jk_bin = 2"
  "wtheta_of_region jk_bin 0 = Inr 1"
  "wtheta_of_region jk_bin 1 = Inr 3"
  by (simp_all add: jk_bin_def wtheta_of_region_def new_angular_bin_fields vec_get_def
      bind_fault_def ddiv_def)

lemma upt_two: "[0..<2] = [0, Suc 0]"
  by (simp add: upt_rec numeral_2_eq_2)

lemma jk_bin_mean: "mean_wtheta jk_bin = Inr 2"
  using jk_bin_regions
  by (simp add: mean_wtheta_def upt_two bind_fault_def ddiv_def)

lemma jk_bin_error: "mean_wtheta_error jk_bin = Inr (sqrt 2 / 2)"
  using jk_bin_regions
  by (simp add: mean_wtheta_error_def jk_bin_mean upt_two bind_fault_def ddiv_def)

text \<open>
  Claim C3, as stated, fails in its second half: for the two regions of \<open>jk_bin\<close> with
  \<open>wtheta(0) = 1\<close> and \<open>wtheta(1) = 3\<close> the mean is 2 and the claimed error is
  \<open>sqrt ((2 - 1) / 2 * ((1 - 2)\<^sup>2 + (3 - 2)\<^sup>2)) = 1\<close>, but \<open>mean_wtheta_error\<close>
  returns \<open>sqrt 2 / 2\<close>.
\<close>

theorem jackknife_error_counterexample:
  "n_region jk_bin = 2 \<and>
   wtheta_of_region jk_bin 0 = Inr 1 \<and> wtheta_of_region jk_bin 1 = Inr 3 \<and>
   mean_wtheta jk_bin = Inr 2 \<and>
   mean_wtheta_error jk_bin \<noteq> Inr (sqrt ((2 - 1) / 2 * ((1 - 2)\<^sup>2 + (3 - 2)\<^sup>2)))"
proof -
  have "sqrt 2 \<noteq> 2"
  proof
    assume "sqrt 2 = 2"
    then have "(sqrt 2)\<^sup>2 = 2\<^sup>2" by simp
    then show False by simp
  qed
  then show ?thesis by (simp add: jk_bin_regions jk_bin_mean jk_bin_error)
qed

text \<open>
  Claim C3, amended. In a bin with \<open>N > 0\<close> regions whose per-region values
  \<open>wtheta(k)\<close>, \<open>k < N\<close>, are all finite (\<open>w k\<close>), \<open>mean_wtheta()\<close> is
  \<open>(1/N) * (\<Sum>k<N. w k)\<close> and \<open>mean_wtheta_error()\<close> is
  \<open>(N - 1) / N * sqrt (\<Sum>k<N. (w k - mean)\<^sup>2)\<close>: the factor \<open>(N - 1) / N\<close>
  multiplies the square root, it is not under it.
\<close>

theorem jackknife_mean_and_error:
  assumes "0 < n_region b"
    and "\<forall>k<nat (n_region b). wtheta_of_region b (int k) = Inr (w k)"
  shows "mean_wtheta b = Inr ((1 / real_of_int (n_region b)) * (\<Sum>k<nat (n_region b). w k)) \<and>
    mean_wtheta_error b =
      Inr ((real_of_int (n_region b) - 1) / real_of_int (n_region b) *
        sqrt (\<Sum>k<nat (n_region b).
           (w k - (1 / real_of_int (n_region b)) * (\<Sum>k<nat (n_region b). w k))\<^sup>2))"
proof -
  let ?n = "real_of_int (n_region b)"
  let ?N = "nat (n_region b)"
  let ?m = "(1 / ?n) * (\<Sum>k<?N. w k)"
  have n0: "?n \<noteq> 0" using assms(1) by simp
  have all: "\<forall>k\<in>set [0..<?N]. wtheta_of_region b (int k) = Inr (w k)"
    using assms(2) by simp
  have m: "mean_wtheta b = Inr ?m"
    unfolding mean_wtheta_def
    by (simp add: mean_loop [OF all n0] sum_list_upt sum_divide_distrib)
  have loop: "for_regions [0..<?N]
          (\<lambda>k acc. bind_fault (wtheta_of_region b (int k)) (\<lambda>x.
               Inr (acc + (?m - x) * (?m - x)))) 0
        = Inr (\<Sum>k<?N. (w k - ?m)\<^sup>2)"
    using square_loop [OF all, of ?m 0] by (simp add: sum_list_upt)
  have e: "mean_wtheta_error b = Inr ((?n - 1) / ?n * sqrt (\<Sum>k<?N. (w k - ?m)\<^sup>2))"
    unfolding mean_wtheta_error_def m
    by (subst bind_fault_def, simp only: sum.case, subst loop)
       (use n0 in \<open>simp add: bind_fault_def ddiv_def\<close>)
  from m e show ?thesis by simp
qed

theorem jackknife_mean_and_error_witness:
  "0 < n_region jk_bin \<and> mean_wtheta jk_bin = Inr 2 \<and>
   mean_wtheta_error jk_bin = Inr (sqrt 2 / 2)"
  using jackknife_mean_and_error [of jk_bin "\<lambda>k. if k = 0 then 1 else 3"] jk_bin_regions
  by (simp add: numeral_2_eq_2 less_Suc_eq lessThan_Suc)

subsection \<open>The level of a bin\<close>

lemma find_level_from_first:
  "0 \<le> lvl \<Longrightarrow>
   (let r = find_level_from c b lvl in
      (r = - 1 \<and> (\<forall>l. lvl \<le> l \<and> l < MAX_LEVEL c \<longrightarrow> \<not> resolves c b l)) \<or>
      (lvl \<le> r \<and> r < MAX_LEVEL c \<and> resolves c b r \<and>
         (\<forall>l. lvl \<le> l \<and> l < r \<longrightarrow> \<not> resolves c b l)))"
proof (induction c b lvl rule: find_level_from.induct)
  case (1 c b lvl)
  show ?case
  proof (cases "lvl < MAX_LEVEL c")
    case False
    then show ?thesis by (subst find_level_from.simps) (auto simp: Let_def)
  next
    case True
    show ?thesis
    proof (cases "resolves c b lvl")
      case r: True
      with True show ?thesis by (subst find_level_from.simps) (auto simp: Let_def)
    next
      case r: False
      have step: "find_level_from c b lvl = find_level_from c b (lvl + 1)"
        using True r by (subst find_level_from.simps) simp
      have IH: "let r = find_level_from c b (lvl + 1) in
          (r = - 1 \<and> (\<forall>l. lvl + 1 \<le> l \<and> l < MAX_LEVEL c \<longrightarrow> \<not> resolves c b l)) \<or>
          (lvl + 1 \<le> r \<and> r < MAX_LEVEL c \<and> resolves c b r \<and>
             (\<forall>l. lvl + 1 \<le> l \<and> l < r \<longrightarrow> \<not> resolves c b l))"
        using "1.IH" [OF True r] "1.prems" by simp
      have low: "\<And>l. lvl \<le> l \<Longrightarrow> l = lvl \<or> lvl + 1 \<le> l" by arith
      show ?thesis unfolding step using IH r low "1.prems"
        by (auto simp: Let_def)
    qed
  qed
qed

lemma spec_scale_0: "level_scale spec_core 0 = sqrt (4 * pi / 3)"
  by (simp add: level_scale_def spec_core_def)

lemma spec_scale_1: "level_scale spec_core 1 = sqrt (pi / 3)"
  by (simp add: level_scale_def spec_core_def)

lemma spec_scale_0_bounds: "1 \<le> sqrt (4 * pi / 3)" "sqrt (4 * pi / 3) \<le> 3"
proof -
  have "1 \<le> 4 * pi / 3" using pi_ge_two by simp
  then show "1 \<le> sqrt (4 * pi / 3)" by simp
  have "4 * pi / 3 \<le> 3\<^sup>2" using pi_less_4 by simp
  then have "sqrt (4 * pi / 3) \<le> sqrt (3\<^sup>2)" by (rule real_sqrt_le_mono)
  then show "sqrt (4 * pi / 3) \<le> 3" by simp
qed

lemma spec_scale_1_bound: "1 / 2 \<le> sqrt (pi / 3)"
proof -
  have "(1 / 2)\<^sup>2 \<le> pi / 3" using pi_ge_two by (simp add: power2_eq_square)
  then show ?thesis by (rule real_le_rsqrt)
qed

lemma wide_bin_resolves_0: "resolves spec_core wide_bin 0"
proof -
  let ?s = "sqrt (4 * pi / 3)"
  have ge: "double_ge spec_core ?s (1 / 2)"
    using spec_scale_0_bounds(1) by (simp add: spec_core_def del: real_sqrt_ge_1_iff)
  have le: "double_le spec_core ?s 3"
    using spec_scale_0_bounds(2) by (simp add: spec_core_def)
  show ?thesis
    using ge le
    by (simp add: resolves_def is_within_bounds_def spec_scale_0 wide_bin_def
        new_angular_bin_fields)
qed

lemma wide_bin_level: "level (find_level spec_core wide_bin) = 0"
  using wide_bin_resolves_0
  by (simp add: find_level_def find_level_from.simps [of _ _ 0]) (simp add: spec_core_def)

text \<open>
  Claim C4, as stated, fails. For the bin \<open>wide_bin\<close> with bounds \<open>[1/2, 3]\<close> the scale
  of level 0 lies inside the bounds and \<open>find_level\<close> stops there, although level 1 is
  below the maximum level and its scale is still at least \<open>theta_min_\<close>: the level set is
  not the largest level whose scale is at least \<open>theta_min_\<close>.
\<close>

theorem find_level_largest_counterexample:
  "theta_min wide_bin \<le> theta_max wide_bin \<and>
   level (find_level spec_core wide_bin) = 0 \<and>
   (1::int) < MAX_LEVEL spec_core \<and>
   theta_min wide_bin \<le> sqrt (2 * average_area spec_core 1)"
proof -
  have "theta_min wide_bin \<le> sqrt (2 * average_area spec_core 1)"
    using spec_scale_1_bound spec_scale_1
    by (simp only: level_scale_def wide_bin_def new_angular_bin_fields)
  moreover have "(1::int) < MAX_LEVEL spec_core" by (simp add: spec_core_def)
  moreover have "theta_min wide_bin \<le> theta_max wide_bin"
    by (simp add: wide_bin_def new_angular_bin_fields)
  ultimately show ?thesis using wide_bin_level by simp
qed

text \<open>
  Claim C4, amended. \<open>find_level\<close> sets the level to the smallest level \<open>l\<close> in
  \<open>[0, MAX_LEVEL)\<close> whose scale \<open>sqrt (2 * average_area l)\<close> is within the bounds of the
  bin (by \<open>double_ge\<close> and \<open>double_le\<close>) or below \<open>theta_min_\<close>, and to -1 if there is no
  such level. Areas are taken to be non-negative, so that the square root is a number.
\<close>

theorem find_level_smallest:
  assumes "theta_min b \<le> theta_max b"
    and "\<forall>l. 0 \<le> average_area c l"
  shows "let r = level (find_level c b) in
      (r = - 1 \<and> (\<forall>l. 0 \<le> l \<and> l < MAX_LEVEL c \<longrightarrow> \<not> resolves c b l)) \<or>
      (0 \<le> r \<and> r < MAX_LEVEL c \<and> resolves c b r \<and>
         (\<forall>l. 0 \<le> l \<and> l < r \<longrightarrow> \<not> resolves c b l))"
  using find_level_from_first [of 0 c b] by (simp add: find_level_def)

theorem find_level_smallest_witness:
  "theta_min wide_bin \<le> theta_max wide_bin \<and>
   level (find_level spec_core wide_bin) = 0 \<and> resolves spec_core wide_bin 0"
proof -
  have h1: "theta_min wide_bin \<le> theta_max wide_bin"
    by (simp add: wide_bin_def new_angular_bin_fields)
  have h2: "\<forall>l. 0 \<le> average_area spec_core l"
    by (simp add: spec_core_def)
  show ?thesis
    using find_level_smallest [OF h1 h2] h1 wide_bin_level wide_bin_resolves_0 by simp
qed

section \<open>Properties of RegionMap\<close>

subsection \<open>Queries outside the footprint\<close>

text \<open>
  Claim C10. For a point whose pixel at the resolution of the region map is not a key of
  the region map \<open>FindRegion\<close> returns -1, for a pixel index that is not a key
  \<open>Region\<close> returns -1, and neither query changes the region map (whether the key is
  there or not): \<open>operator[]\<close> is only reached for a key that \<open>find\<close> has found.
\<close>

theorem region_query_absent:
  "(map_of (rm_region_map rm) (pixnum_of ang (rm_region_resolution rm)) = None \<longrightarrow>
      fst (FindRegion pixnum_of rm ang) = - 1) \<and>
   (map_of (rm_region_map rm) idx = None \<longrightarrow> fst (Region rm idx) = - 1) \<and>
   snd (FindRegion pixnum_of rm ang) = rm \<and> snd (Region rm idx) = rm"
  by (auto simp: Region_def FindRegion_def map_index_def Let_def split: option.splits)

theorem region_query_absent_witness:
  "map_of (rm_region_map two_regions) 7 = None \<and>
   FindRegion (\<lambda>(ang :: real \<times> real) res. 7) two_regions (0, 0) = (- 1, two_regions) \<and>
   map_of (rm_region_map two_regions) 9 = None \<and>
   Region two_regions 9 = (- 1, two_regions)"
proof -
  have a: "map_of (rm_region_map two_regions) 7 = None"
    and b: "map_of (rm_region_map two_regions) 9 = None"
    and c: "rm_region_resolution two_regions = 4"
    by (simp_all add: two_regions_def new_RegionMap_def)
  show ?thesis
    using region_query_absent [of two_regions "\<lambda>(ang :: real \<times> real) res. 7" "(0, 0)" 9] a b
    by (simp add: prod_eq_iff)
qed

subsection \<open>Basic facts\<close>

lemma wrap16_id: "- 32768 \<le> x \<Longrightarrow> x < 32768 \<Longrightarrow> wrap16 x = x"
  by (simp add: wrap16_def)

lemma four_pixels_fields:
  "Pixnum pixel_a = 10" "Pixnum pixel_b = 11" "Pixnum pixel_c = 12" "Pixnum pixel_d = 13"
  "Stripe pixel_a = 2" "Stripe pixel_b = 2" "Stripe pixel_c = 3" "Stripe pixel_d = 3"
  "Weight pixel_a = 1" "Weight pixel_b = 1" "Weight pixel_c = 1" "Weight pixel_d = 9"
  by (simp_all add: pixel_a_def pixel_b_def pixel_c_def pixel_d_def)

subsection \<open>The sweep of the regionation\<close>

lemma regionate_pixel_visit:
  "regionate_pixel u cov n sec p s = (if in_section sec p then visit u cov n p s else s)"
  by (simp add: visit_def regionate_pixel_def in_section_def)

lemma fold_section_visit:
  "fold (regionate_pixel u cov n sec) ps s =
     fold (visit u cov n) (filter (in_section sec) ps) s"
  by (induction ps arbitrary: s) (simp_all add: regionate_pixel_visit)

lemma regionate_loops_sweep:
  "regionate_loops u cov n secs s = fold (visit u cov n) (sweep secs cov) s"
  unfolding regionate_loops_def sweep_def
  by (induction secs arbitrary: s) (simp_all add: fold_section_visit)

lemma base_map_area_sum:
  "base_map_area u cov = (\<Sum>p\<leftarrow>cov. Weight p * u)"
proof -
  have "fold (\<lambda>p a. a + u * Weight p) cov a = a + (\<Sum>p\<leftarrow>cov. Weight p * u)" for a
    by (induction cov arbitrary: a) (simp_all add: algebra_simps)
  then show ?thesis by (simp add: base_map_area_def)
qed

lemma stays_in_region_spec:
  assumes "n \<noteq> 0"
  shows "stays_in_region u cov n s \<longleftrightarrow>
     region_area s + 0.75 * ((\<Sum>p\<leftarrow>cov. Weight p * u) / real (length cov))
       < real_of_int (region_iter s + 1) * ((\<Sum>p\<leftarrow>cov. Weight p * u) / real (unat n))
     \<or> region_iter s = int (unat n) - 1"
  using assms
  by (simp add: stays_in_region_def mean_area_def area_break_def base_map_area_sum
      mult.commute)

lemma visit_fields:
  fixes u :: real and cov :: "pixel list" and n :: "8 word"
  assumes "n \<noteq> 0" and "0 \<le> region_iter s" and "region_iter s \<le> int (unat n) - 1"
  defines "k' \<equiv>
    (if region_area s + 0.75 * ((\<Sum>p\<leftarrow>cov. Weight p * u) / real (length cov))
          < real_of_int (region_iter s + 1) * ((\<Sum>p\<leftarrow>cov. Weight p * u) / real (unat n))
        \<or> region_iter s = int (unat n) - 1
     then region_iter s else region_iter s + 1)"
  shows "region_iter (visit u cov n p s) = k'"
    and "region_area (visit u cov n p s) = region_area s + Weight p * u"
    and "running_area (visit u cov n p s) =
           (if k' = region_iter s then running_area s + Weight p * u else Weight p * u)"
    and "rm_region_map (rmap (visit u cov n p s)) =
           AList.update (Pixnum p) k' (rm_region_map (rmap s))"
    and "rm_region_area (rmap (visit u cov n p s)) =
           (if k' = region_iter s then rm_region_area (rmap s)
            else AList.update (region_iter s) (running_area s) (rm_region_area (rmap s)))"
    and "rm_n_region (rmap (visit u cov n p s)) = rm_n_region (rmap s)"
    and "rm_region_resolution (rmap (visit u cov n p s)) = rm_region_resolution (rmap s)"
    and "0 \<le> region_iter (visit u cov n p s)"
    and "region_iter (visit u cov n p s) \<le> int (unat n) - 1"
proof -
  have "uint n < 256" using uint_lt2p [of n] by simp
  then have w: "region_iter s \<noteq> int (unat n) - 1 \<Longrightarrow>
      wrap16 (region_iter s + 1) = region_iter s + 1"
    using assms(2,3) by (intro wrap16_id) auto
  have v: "visit u cov n p s =
     (if stays_in_region u cov n s then
        s\<lparr>region_area := region_area s + Weight p * u,
          rmap := (rmap s)\<lparr>rm_region_map :=
                     AList.update (Pixnum p) (region_iter s) (rm_region_map (rmap s))\<rparr>,
          running_area := running_area s + Weight p * u\<rparr>
      else
        s\<lparr>rmap := (rmap s)
             \<lparr>rm_region_area :=
                AList.update (region_iter s) (running_area s) (rm_region_area (rmap s)),
              rm_region_map :=
                AList.update (Pixnum p) (wrap16 (region_iter s + 1))
                  (rm_region_map (rmap s))\<rparr>,
          region_iter := wrap16 (region_iter s + 1),
          region_area := region_area s + Weight p * u,
          running_area := Weight p * u\<rparr>)"
    by (simp add: visit_def regionate_pixel_def in_section_def)
  show "region_iter (visit u cov n p s) = k'"
    and "region_area (visit u cov n p s) = region_area s + Weight p * u"
    and "running_area (visit u cov n p s) =
           (if k' = region_iter s then running_area s + Weight p * u else Weight p * u)"
    and "rm_region_map (rmap (visit u cov n p s)) =
           AList.update (Pixnum p) k' (rm_region_map (rmap s))"
    and "rm_region_area (rmap (visit u cov n p s)) =
           (if k' = region_iter s then rm_region_area (rmap s)
            else AList.update (region_iter s) (running_area s) (rm_region_area (rmap s)))"
    and "rm_n_region (rmap (visit u cov n p s)) = rm_n_region (rmap s)"
    and "rm_region_resolution (rmap (visit u cov n p s)) = rm_region_resolution (rmap s)"
    unfolding v k'_def stays_in_region_spec [OF assms(1)]
    using w by auto
  then show "0 \<le> region_iter (visit u cov n p s)"
    and "region_iter (visit u cov n p s) \<le> int (unat n) - 1"
    unfolding k'_def using assms(2,3) by auto
qed

lemma spec_regions_lower:
  "j \<in> set (spec_regions A mu N acc k areas) \<Longrightarrow> k \<le> j"
proof (induction areas arbitrary: acc k)
  case Nil
  then show ?case by simp
next
  case (Cons a areas)
  then show ?case by (fastforce simp: Let_def split: if_splits)
qed

lemma spec_regions_last: "k \<le> last (k # spec_regions A mu N acc k areas)"
  using spec_regions_lower [of "last (spec_regions A mu N acc k areas)" A mu N acc k areas]
  by (cases "spec_regions A mu N acc k areas = []") auto

lemma spec_regions_length [simp]: "length (spec_regions A mu N acc k areas) = length areas"
  by (induction areas arbitrary: acc k) (simp_all add: Let_def)

lemma spec_region_area_none:
  "\<forall>j\<in>set regions. k < j \<Longrightarrow> spec_region_area areas regions k = 0"
proof -
  assume a: "\<forall>j\<in>set regions. k < j"
  have "filter (\<lambda>x. snd x = k) (zip areas regions) = []"
    unfolding filter_empty_conv using a by (auto dest!: set_zip_rightD)
  then show ?thesis by (simp add: spec_region_area_def)
qed

lemma spec_region_area_Cons:
  "spec_region_area (a # areas) (j # regions) k =
     (if j = k then a else 0) + spec_region_area areas regions k"
  by (simp add: spec_region_area_def)


lemma visits_regions:
  fixes u :: real and cov :: "pixel list" and n :: "8 word"
  assumes "n \<noteq> 0" and "0 \<le> region_iter s" and "region_iter s \<le> int (unat n) - 1"
  shows "region_iter (fold (visit u cov n) vs s) =
           last (region_iter s #
             spec_regions ((\<Sum>p\<leftarrow>cov. Weight p * u) / real (unat n))
               ((\<Sum>p\<leftarrow>cov. Weight p * u) / real (length cov)) (int (unat n))
               (region_area s) (region_iter s) (map (\<lambda>p. Weight p * u) vs)) \<and>
         rm_region_map (rmap (fold (visit u cov n) vs s)) =
           fold (\<lambda>(p, k). AList.update (Pixnum p) k)
             (zip vs (spec_regions ((\<Sum>p\<leftarrow>cov. Weight p * u) / real (unat n))
               ((\<Sum>p\<leftarrow>cov. Weight p * u) / real (length cov)) (int (unat n))
               (region_area s) (region_iter s) (map (\<lambda>p. Weight p * u) vs)))
             (rm_region_map (rmap s)) \<and>
         rm_n_region (rmap (fold (visit u cov n) vs s)) = rm_n_region (rmap s) \<and>
         rm_region_resolution (rmap (fold (visit u cov n) vs s)) =
           rm_region_resolution (rmap s)"
  using assms(2,3)
proof (induction vs arbitrary: s)
  case Nil
  then show ?case by simp
next
  case (Cons v vs)
  note step = visit_fields [OF assms(1) Cons.prems, of u cov v]
  note IH = Cons.IH [OF step(8,9)]
  show ?case
    using IH by (simp add: step Let_def)
qed

lemma visits_areas:
  fixes u :: real and cov :: "pixel list" and n :: "8 word"
  assumes "n \<noteq> 0" and "0 \<le> region_iter s" and "region_iter s \<le> int (unat n) - 1"
  shows "AList.update (region_iter (fold (visit u cov n) vs s))
           (running_area (fold (visit u cov n) vs s))
           (rm_region_area (rmap (fold (visit u cov n) vs s))) =
         fold (\<lambda>j. AList.update j
                 (spec_region_area (map (\<lambda>p. Weight p * u) vs)
                    (spec_regions ((\<Sum>p\<leftarrow>cov. Weight p * u) / real (unat n))
                       ((\<Sum>p\<leftarrow>cov. Weight p * u) / real (length cov)) (int (unat n))
                       (region_area s) (region_iter s) (map (\<lambda>p. Weight p * u) vs)) j +
                  (if j = region_iter s then running_area s else 0)))
           [region_iter s..
              last (region_iter s #
                spec_regions ((\<Sum>p\<leftarrow>cov. Weight p * u) / real (unat n))
                  ((\<Sum>p\<leftarrow>cov. Weight p * u) / real (length cov)) (int (unat n))
                  (region_area s) (region_iter s) (map (\<lambda>p. Weight p * u) vs))]
           (rm_region_area (rmap s))"
  using assms(2,3)
proof (induction vs arbitrary: s)
  case Nil
  then show ?case by (simp add: spec_region_area_def)
next
  case (Cons v vs)
  define A where "A = (\<Sum>p\<leftarrow>cov. Weight p * u) / real (unat n)"
  define mu where "mu = (\<Sum>p\<leftarrow>cov. Weight p * u) / real (length cov)"
  define N where "N = int (unat n)"
  define k where "k = region_iter s"
  define a where "a = Weight v * u"
  define areas where "areas = map (\<lambda>p. Weight p * u) vs"
  define s1 where "s1 = visit u cov n v s"
  define k' where "k' = region_iter s1"
  define ks where "ks = spec_regions A mu N (region_area s + a) k' areas"
  define K where "K = last (k' # ks)"
  note step = visit_fields [OF assms(1) Cons.prems, of u cov v,
      folded A_def mu_def N_def k_def a_def s1_def]
  have k'_eq: "k' = (if region_area s + 0.75 * mu < real_of_int (k + 1) * A \<or> k = N - 1
      then k else k + 1)"
    unfolding k'_def step(1) ..
  have bounds: "0 \<le> region_iter s1" "region_iter s1 \<le> int (unat n) - 1"
    using visit_fields(8,9) [OF assms(1) Cons.prems, of u cov v] unfolding s1_def by simp_all
  have regs: "spec_regions A mu N (region_area s) k (a # areas) = k' # ks"
    by (simp add: Let_def k'_eq ks_def)
  have IH: "AList.update (region_iter (fold (visit u cov n) vs s1))
           (running_area (fold (visit u cov n) vs s1))
           (rm_region_area (rmap (fold (visit u cov n) vs s1))) =
         fold (\<lambda>j. AList.update j
                 (spec_region_area areas ks j + (if j = k' then running_area s1 else 0)))
           [k'..K] (rm_region_area (rmap s1))"
    using Cons.IH [OF bounds]
    unfolding A_def [symmetric] mu_def [symmetric] N_def [symmetric] areas_def [symmetric]
      k'_def [symmetric] step(2) ks_def [symmetric] K_def [symmetric] .
  have goal: "AList.update (region_iter (fold (visit u cov n) vs s1))
           (running_area (fold (visit u cov n) vs s1))
           (rm_region_area (rmap (fold (visit u cov n) vs s1))) =
         fold (\<lambda>j. AList.update j
                 (spec_region_area (a # areas) (k' # ks) j +
                  (if j = k then running_area s else 0)))
           [k..K] (rm_region_area (rmap s))"
  proof (cases "k' = k")
    case True
    have run: "running_area s1 = running_area s + a"
      and tab: "rm_region_area (rmap s1) = rm_region_area (rmap s)"
      using step(3,5) True k'_eq by (simp_all add: k'_def)
    have "(\<lambda>j. AList.update j
              (spec_region_area areas ks j + (if j = k' then running_area s1 else 0))) =
          (\<lambda>j. AList.update j
              (spec_region_area (a # areas) (k' # ks) j +
               (if j = k then running_area s else 0)))"
      by (rule ext) (simp add: spec_region_area_Cons True run add.commute add.left_commute)
    then show ?thesis unfolding IH tab True by simp
  next
    case False
    then have k1: "k' = k + 1" using k'_eq by (simp split: if_splits)
    have run: "running_area s1 = a"
      and tab: "rm_region_area (rmap s1) =
          AList.update k (running_area s) (rm_region_area (rmap s))"
      using step(3,5) False k'_eq by (simp_all add: k'_def split: if_splits)
    have "k' \<le> K" unfolding K_def ks_def by (rule spec_regions_last)
    then have upto: "[k..K] = k # [k'..K]" using k1 by (simp add: upto_rec1)
    have later: "\<forall>j\<in>set (k' # ks). k < j"
      using spec_regions_lower [of _ A mu N "region_area s + a" k' areas] k1
      by (fastforce simp: ks_def)
    have zero: "spec_region_area (a # areas) (k' # ks) k = 0"
      by (rule spec_region_area_none [OF later])
    have "fold (\<lambda>j. AList.update j
                 (spec_region_area (a # areas) (k' # ks) j +
                  (if j = k then running_area s else 0)))
           [k'..K] (AList.update k (running_area s) (rm_region_area (rmap s))) =
          fold (\<lambda>j. AList.update j
                 (spec_region_area areas ks j + (if j = k' then running_area s1 else 0)))
           [k'..K] (AList.update k (running_area s) (rm_region_area (rmap s)))"
      by (rule fold_cong) (auto simp: spec_region_area_Cons run k1 add.commute)
    then show ?thesis unfolding IH tab upto by (simp add: zero)
  qed
  have list: "map (\<lambda>p. Weight p * u) (v # vs) = a # areas"
    by (simp add: a_def areas_def)
  have first: "fold (visit u cov n) (v # vs) s = fold (visit u cov n) vs s1"
    by (simp add: s1_def)
  have K2: "last (k # k' # ks) = K" by (simp add: K_def)
  show ?case
    unfolding first list A_def [symmetric] mu_def [symmetric] N_def [symmetric]
      k_def [symmetric] regs K2
    by (rule goal)
qed


lemma Regionate_sweep:
  assumes "n \<noteq> 0"
  shows "Regionate c cov secs n 0 rm =
     rm\<lparr>rm_region_map :=
          fold (\<lambda>(p, k). AList.update (Pixnum p) k)
            (zip (sweep secs cov)
               (spec_regions
                  ((\<Sum>p\<leftarrow>cov. Weight p * PixelArea c (rm_region_resolution rm)) / real (unat n))
                  ((\<Sum>p\<leftarrow>cov. Weight p * PixelArea c (rm_region_resolution rm)) / real (length cov))
                  (int (unat n)) 0 0
                  (map (\<lambda>p. Weight p * PixelArea c (rm_region_resolution rm)) (sweep secs cov))))
            (rm_region_map rm),
        rm_region_area :=
          fold (\<lambda>k. AList.update k
                  (spec_region_area
                     (map (\<lambda>p. Weight p * PixelArea c (rm_region_resolution rm)) (sweep secs cov))
                     (spec_regions
                        ((\<Sum>p\<leftarrow>cov. Weight p * PixelArea c (rm_region_resolution rm)) / real (unat n))
                        ((\<Sum>p\<leftarrow>cov. Weight p * PixelArea c (rm_region_resolution rm)) / real (length cov))
                        (int (unat n)) 0 0
                        (map (\<lambda>p. Weight p * PixelArea c (rm_region_resolution rm)) (sweep secs cov)))
                     k))
            [0..last (0 #
               spec_regions
                 ((\<Sum>p\<leftarrow>cov. Weight p * PixelArea c (rm_region_resolution rm)) / real (unat n))
                 ((\<Sum>p\<leftarrow>cov. Weight p * PixelArea c (rm_region_resolution rm)) / real (length cov))
                 (int (unat n)) 0 0
                 (map (\<lambda>p. Weight p * PixelArea c (rm_region_resolution rm)) (sweep secs cov)))]
            (rm_region_area rm)\<rparr>"
proof -
  define u where "u = PixelArea c (rm_region_resolution rm)"
  define init where
    "init = \<lparr>region_area = 0, running_area = 0, region_iter = 0, rmap = rm\<rparr>"
  define fin where "fin = fold (visit u cov n) (sweep secs cov) init"
  have "uint n \<noteq> 0" using assms by (simp add: unsigned_eq_0_iff)
  moreover have "0 \<le> uint n" by simp
  ultimately have N: "0 < uint n" by linarith
  have b: "0 \<le> region_iter init" "region_iter init \<le> int (unat n) - 1"
    using N by (simp_all add: init_def)
  define X where "X =
      AList.update (region_iter fin) (running_area fin) (rm_region_area (rmap fin))"
  have unf: "Regionate c cov secs n 0 rm = (rmap fin)\<lparr>rm_region_area := X\<rparr>"
    by (simp add: Regionate_def Let_def regionate_loops_sweep fin_def init_def u_def X_def)
  have i: "region_iter init = 0" "region_area init = 0" "running_area init = 0"
    "rmap init = rm"
    by (simp_all add: init_def)
  note regions = visits_regions [OF assms b, of u cov "sweep secs cov", folded fin_def,
      unfolded i]
  note areas = visits_areas [OF assms b, of u cov "sweep secs cov", folded fin_def X_def,
      unfolded i if_cancel add_0_right]
  show ?thesis
    unfolding unf u_def [symmetric]
    by (rule RegionMap.equality) (simp_all add: regions areas)
qed

lemma four_sweep: "sweep [stripe_two, stripe_three] four_pixels = four_pixels"
  by (simp add: sweep_def four_pixels_def in_section_def stripe_two_def stripe_three_def
      four_pixels_fields)

lemma four_total:
  "(\<Sum>p\<leftarrow>four_pixels. Weight p * PixelArea unit_core 4) = 12"
  "map (\<lambda>p. Weight p * PixelArea unit_core 4) four_pixels = [1, 1, 1, 9]"
  "length four_pixels = 4"
  by (simp_all add: four_pixels_def four_pixels_fields unit_core_def)

lemma four_spec_regions:
  "spec_regions 4 3 3 0 0 [1, 1, 1, 9] = [0, 0, 1, 1]"
  "spec_regions 6 3 2 0 0 [1, 1, 1, 9] = [0, 0, 0, 0]"
  by (simp_all add: Let_def)

lemma four_zip:
  "zip four_pixels [k1, k2, k3, k4] =
     [(pixel_a, k1), (pixel_b, k2), (pixel_c, k3), (pixel_d, k4)]"
  by (simp add: four_pixels_def)

text \<open>
  Claim C5. Let \<open>_Regionate\<close> run for \<open>N \<ge> 1\<close> regions from region 0 on any list of
  covering pixels, any list of sections and any region map. The total area is the sum of
  weight times pixel area over the covering pixels, the target area is
  \<open>A = total_area / N\<close> and the mean pixel area is
  \<open>mu = total_area / number of covering pixels\<close>. Then the region map that
  \<open>_Regionate\<close> leaves is the one it found, updated for every pixel of the sweep, in
  the order of the sweep, with the region that the rule of the specification gives it: the
  pixel is assigned to the current region \<open>k\<close> while the area accumulated before it
  plus \<open>0.75 * mu\<close> is below \<open>(k + 1) * A\<close>, it starts region \<open>k + 1\<close> otherwise,
  and the last region \<open>N - 1\<close> takes every pixel that is left. Every region from 0 to
  the last one begun is finalized: the area table holds for it the sum of the areas of
  the pixels assigned to it.
\<close>

theorem regionate_threshold:
  assumes "n \<noteq> 0"
  shows "let unit_area = PixelArea c (rm_region_resolution rm);
             total_area = (\<Sum>p\<leftarrow>coverage_pix. Weight p * unit_area);
             A = total_area / real (unat n);
             mu = total_area / real (length coverage_pix);
             visited = sweep sectionVec coverage_pix;
             areas = map (\<lambda>p. Weight p * unit_area) visited;
             regions = spec_regions A mu (int (unat n)) 0 0 areas;
             rm' = Regionate c coverage_pix sectionVec n 0 rm
         in rm_region_map rm' =
              fold (\<lambda>(p, k). AList.update (Pixnum p) k) (zip visited regions)
                (rm_region_map rm) \<and>
            rm_region_area rm' =
              fold (\<lambda>k. AList.update k (spec_region_area areas regions k))
                [0..last (0 # regions)] (rm_region_area rm)"
  unfolding Let_def Regionate_sweep [OF assms] by simp

theorem regionate_threshold_witness:
  "(3::8 word) \<noteq> 0 \<and>
   sweep [stripe_two, stripe_three] four_pixels = [pixel_a, pixel_b, pixel_c, pixel_d] \<and>
   spec_regions (12 / 3) (12 / 4) 3 0 0 [1, 1, 1, 9] = [0, 0, 1, 1] \<and>
   rm_region_map (Regionate unit_core four_pixels [stripe_two, stripe_three] 3 0 empty_at_4)
     = [(10, 0), (11, 0), (12, 1), (13, 1)] \<and>
   rm_region_area (Regionate unit_core four_pixels [stripe_two, stripe_three] 3 0 empty_at_4)
     = [(0, 2), (1, 10)]"
proof -
  have n: "(3::8 word) \<noteq> 0" by simp
  have res: "rm_region_resolution empty_at_4 = 4" "rm_region_map empty_at_4 = []"
    "rm_region_area empty_at_4 = []"
    by (simp_all add: empty_at_4_def new_RegionMap_def)
  have up: "[0..1] = [0, 1::int]" by (simp add: upto_rec1)
  have "rm_region_map
          (Regionate unit_core four_pixels [stripe_two, stripe_three] 3 0 empty_at_4)
        = [(10, 0), (11, 0), (12, 1), (13, 1)] \<and>
      rm_region_area
          (Regionate unit_core four_pixels [stripe_two, stripe_three] 3 0 empty_at_4)
        = [(0, 2), (1, 10)]"
    using regionate_threshold [OF n, of unit_core empty_at_4 four_pixels
        "[stripe_two, stripe_three]"]
    by (simp add: Let_def res four_sweep four_total four_spec_regions four_zip
        four_pixels_fields up spec_region_area_def)
  moreover have "sweep [stripe_two, stripe_three] four_pixels =
      [pixel_a, pixel_b, pixel_c, pixel_d]"
    unfolding four_sweep by (simp add: four_pixels_def)
  ultimately show ?thesis by (simp add: four_spec_regions)
qed

subsection \<open>Sections cover every stripe once\<close>

lemma cover_count_append [simp]:
  "cover_count (xs @ ys) t = cover_count xs t + cover_count ys t"
  by (simp add: cover_count_def)

lemma cover_count_single [simp]:
  "cover_count [sec] t = (if covers sec t then 1 else 0)"
  by (simp add: cover_count_def)

lemma cover_count_Nil [simp]: "cover_count [] t = 0"
  by (simp add: cover_count_def)

lemma list_update_last:
  "xs \<noteq> [] \<Longrightarrow> xs[length xs - Suc 0 := y] = butlast xs @ [y]"
  by (induction xs rule: rev_induct) (simp_all add: list_update_append)

lemma nth_last: "xs \<noteq> [] \<Longrightarrow> xs ! (length xs - Suc 0) = last xs"
  by (simp add: last_conv_nth)

text \<open>Moving the upper end of the last section one stripe up covers that stripe and
  nothing else.\<close>

lemma extend_last_count:
  assumes "xs \<noteq> []" and "max_stripe (last xs) = b" and "min_stripe (last xs) \<le> b"
  shows "cover_count (xs[length xs - Suc 0 := (xs ! (length xs - Suc 0))\<lparr>max_stripe := Suc b\<rparr>]) t =
         cover_count xs t + (if t = Suc b then 1 else 0)"
proof -
  have xs: "xs = butlast xs @ [last xs]" using assms(1) by simp
  have "cover_count xs t = cover_count (butlast xs) t + (if covers (last xs) t then 1 else 0)"
    by (subst xs) simp
  moreover have "cover_count (butlast xs @ [(last xs)\<lparr>max_stripe := Suc b\<rparr>]) t =
      cover_count (butlast xs) t + (if covers ((last xs)\<lparr>max_stripe := Suc b\<rparr>) t then 1 else 0)"
    by simp
  moreover have "covers ((last xs)\<lparr>max_stripe := Suc b\<rparr>) t \<longleftrightarrow> covers (last xs) t \<or> t = Suc b"
    using assms(2,3) by (auto simp: covers_def)
  moreover have "\<not> (covers (last xs) t \<and> t = Suc b)"
    using assms(2) by (auto simp: covers_def)
  ultimately show ?thesis
    using assms(1) by (auto simp: list_update_last nth_last)
qed

text \<open>The inner loop of the second pass.\<close>

lemma section_steps:
  assumes "1 \<le> w" and "j = int (length vec) - 1" and "a \<le> b"
  shows "\<exists>vec' si' j'. fold (section_step w) [a..<Suc b] (vec, w, j) = (vec', si', j') \<and>
     j' = int (length vec') - 1 \<and> vec' \<noteq> [] \<and>
     max_stripe (last vec') = b \<and> min_stripe (last vec') \<le> b \<and>
     (\<forall>t. cover_count vec' t = cover_count vec t + (if a \<le> t \<and> t \<le> b then 1 else 0))"
  using assms(3)
proof (induction b rule: dec_induct)
  case base
  show ?case using assms(2) by (simp add: section_step_def covers_def) 
next
  case (step b)
  then obtain vec' si' j' where f: "fold (section_step w) [a..<Suc b] (vec, w, j) = (vec', si', j')"
    and j': "j' = int (length vec') - 1" and ne: "vec' \<noteq> []"
    and mx: "max_stripe (last vec') = b" and mn: "min_stripe (last vec') \<le> b"
    and cnt: "\<forall>t. cover_count vec' t = cover_count vec t + (if a \<le> t \<and> t \<le> b then 1 else 0)"
    by blast
  have unf: "fold (section_step w) [a..<Suc (Suc b)] (vec, w, j) =
      section_step w (Suc b) (vec', si', j')"
    using step.hyps(1) f by simp
  have nj: "nat j' = length vec' - Suc 0" using j' ne by (cases vec') auto
  show ?case
  proof (cases "si' = w")
    case True
    then show ?thesis unfolding unf using j' cnt step.hyps(1)
      by (auto simp: section_step_def covers_def)
  next
    case False
    have e: "\<And>t. cover_count (vec'[nat j' := (vec' ! nat j')\<lparr>max_stripe := Suc b\<rparr>]) t =
         cover_count vec' t + (if t = Suc b then 1 else 0)"
      unfolding nj by (rule extend_last_count [OF ne mx mn])
    have l: "last (vec'[nat j' := (vec' ! nat j')\<lparr>max_stripe := Suc b\<rparr>])
        = (last vec')\<lparr>max_stripe := Suc b\<rparr>"
      unfolding nj using ne by (simp add: list_update_last nth_last)
    show ?thesis unfolding unf using False j' cnt step.hyps(1) ne e l mn
      by (auto simp: section_step_def)
  qed
qed

lemma split_section_count:
  assumes "1 \<le> w" and "j = int (length vec) - 1"
  shows "\<exists>vec' j'. split_section w sec (vec, j) = (vec', j') \<and>
     j' = int (length vec') - 1 \<and>
     (\<forall>t. cover_count vec' t = cover_count vec t + (if covers sec t then 1 else 0))"
proof (cases "min_stripe sec \<le> max_stripe sec")
  case True
  from section_steps [OF assms True]
  show ?thesis by (auto simp: split_section_def covers_def)
next
  case False
  then show ?thesis using assms(2) by (auto simp: split_section_def covers_def)
qed

lemma split_sections_count:
  assumes "1 \<le> w" and "j = int (length vec) - 1"
  shows "\<forall>t. cover_count (fst (fold (split_section w) cs (vec, j))) t =
           cover_count vec t + cover_count cs t"
  using assms(2)
proof (induction cs arbitrary: vec j)
  case Nil
  then show ?case by simp
next
  case (Cons sec cs)
  from split_section_count [OF assms(1) Cons.prems, of sec]
  obtain vec' j' where s: "split_section w sec (vec, j) = (vec', j')"
    and j': "j' = int (length vec') - 1"
    and c: "\<forall>t. cover_count vec' t = cover_count vec t + (if covers sec t then 1 else 0)"
    by blast
  have "cover_count (sec # cs) t = (if covers sec t then 1 else 0) + cover_count cs t" for t
    by (simp add: cover_count_def)
  then show ?case using Cons.IH [OF j'] c by (simp add: s)
qed

text \<open>The first pass.\<close>

lemma contiguous_steps:
  assumes "distinct us" and "1 \<le> n" and "n \<le> length us"
  shows "\<exists>cs j. fold (contiguous_step us) [1..<n]
             ([\<lparr>min_stripe = us ! 0, max_stripe = us ! 0\<rparr>], 0) = (cs, j) \<and>
     j = length cs - Suc 0 \<and> cs \<noteq> [] \<and>
     max_stripe (last cs) = us ! (n - 1) \<and> min_stripe (last cs) \<le> us ! (n - 1) \<and>
     (\<forall>t. cover_count cs t = (if t \<in> set (take n us) then 1 else 0))"
  using assms(2,3)
proof (induction n rule: dec_induct)
  case base
  have "take 1 us = [us ! 0]" using base by (cases us) auto
  then show ?case by (auto simp: covers_def)
next
  case (step n)
  then obtain cs j where f: "fold (contiguous_step us) [1..<n]
             ([\<lparr>min_stripe = us ! 0, max_stripe = us ! 0\<rparr>], 0) = (cs, j)"
    and j: "j = length cs - Suc 0" and ne: "cs \<noteq> []"
    and mx: "max_stripe (last cs) = us ! (n - 1)" and mn: "min_stripe (last cs) \<le> us ! (n - 1)"
    and cnt: "\<forall>t. cover_count cs t = (if t \<in> set (take n us) then 1 else 0)"
    by auto
  have n: "n < length us" using step.prems by simp
  have unf: "fold (contiguous_step us) [1..<Suc n]
             ([\<lparr>min_stripe = us ! 0, max_stripe = us ! 0\<rparr>], 0) = contiguous_step us n (cs, j)"
    using step.hyps(1) f by simp
  have tk: "set (take (Suc n) us) = insert (us ! n) (set (take n us))"
    using n by (simp add: take_Suc_conv_app_nth)
  have fresh: "us ! n \<notin> set (take n us)"
    using assms(1) n by (auto simp: in_set_conv_nth nth_eq_iff_index_eq)
  show ?case
  proof (cases "us ! n = us ! (n - 1) + 1")
    case True
    then have S: "us ! n = Suc (us ! (n - 1))" by simp
    have e: "\<And>t. cover_count (cs[j := (cs ! j)\<lparr>max_stripe := us ! n\<rparr>]) t =
         cover_count cs t + (if t = us ! n then 1 else 0)"
      unfolding j S by (rule extend_last_count [OF ne mx mn])
    have l: "last (cs[j := (cs ! j)\<lparr>max_stripe := us ! n\<rparr>]) = (last cs)\<lparr>max_stripe := us ! n\<rparr>"
      unfolding j using ne by (simp add: list_update_last nth_last)
    show ?thesis unfolding unf using True j cnt ne e l mn tk fresh
      by (auto simp: contiguous_step_def)
  next
    case False
    show ?thesis unfolding unf using False j cnt ne tk fresh
      by (auto simp: contiguous_step_def covers_def)
  qed
qed


lemma stripe_dict_keys:
  "distinct (map fst d) \<Longrightarrow>
   distinct (map fst (fold (\<lambda>p d. AList.update (Stripe p) True d) cov d)) \<and>
   set (map fst (fold (\<lambda>p d. AList.update (Stripe p) True d) cov d)) =
     fst ` set d \<union> Stripe ` set cov"
proof (induction cov arbitrary: d)
  case Nil
  then show ?case by simp
next
  case (Cons p cov)
  have d: "distinct (map fst (AList.update (Stripe p) True d))"
    using Cons.prems by (simp add: distinct_update)
  have k: "fst ` set (AList.update (Stripe p) True d) = insert (Stripe p) (fst ` set d)"
    by (simp add: dom_update)
  show ?case using Cons.IH [OF d] k by auto
qed

lemma FindUniqueStripes_props:
  "distinct (FindUniqueStripes cov)" "set (FindUniqueStripes cov) = Stripe ` set cov"
  using stripe_dict_keys [of "[]" cov] by (simp_all add: FindUniqueStripes_def Let_def)

lemma region_width_pos:
  assumes "region_width c res a n = Inr w"
  shows "1 \<le> w"
proof (cases "n = 0 \<or> a / real (unat n) < 0")
  case True
  then show ?thesis using assms by (simp add: region_width_def)
next
  case False
  define x where "x = sqrt (a / real (unat n)) * real (Nx0 c) * real res / 360"
  have "region_width c res a n =
      (if 256 \<le> x then Inl OutOfRange
       else Inr (if nat \<lfloor>x\<rfloor> = 0 then 1 else nat \<lfloor>x\<rfloor>))"
    using False unfolding region_width_def Let_def x_def by (simp only: if_False)
  with assms have "w = (if nat \<lfloor>x\<rfloor> = 0 then 1 else nat \<lfloor>x\<rfloor>)"
    by (cases "256 \<le> x") (simp_all only: if_True if_False sum.inject sum.distinct)
  then have "\<exists>k::nat. w = (if k = 0 then 1 else k)" by blast
  then obtain k :: nat where "w = (if k = 0 then 1 else k)" ..
  then show ?thesis by (cases k) simp_all
qed

lemma FindSections_count:
  assumes "FindSections c res us a n = Inr secs" and "distinct us"
  shows "cover_count secs t = (if t \<in> set us then 1 else 0)"
proof -
  from assms(1) obtain u rest where us: "us = u # rest"
    by (cases us) (auto simp: FindSections_def)
  from assms(1) us obtain w where w: "region_width c res a n = Inr w"
    and secs: "secs = fst (fold (split_section w)
        (fst (fold (contiguous_step us) [1..<length us]
                       ([\<lparr>min_stripe = u, max_stripe = u\<rparr>], 0))) ([], - 1))"
    by (auto simp: FindSections_def Let_def split: sum.splits)
  have len: "1 \<le> length us" "length us \<le> length us" using us by simp_all
  from contiguous_steps [OF assms(2) len]
  obtain cs j where f: "fold (contiguous_step us) [1..<length us]
             ([\<lparr>min_stripe = us ! 0, max_stripe = us ! 0\<rparr>], 0) = (cs, j)"
    and cnt: "\<forall>t. cover_count cs t = (if t \<in> set (take (length us) us) then 1 else 0)"
    by blast
  have u0: "us ! 0 = u" using us by simp
  have s2: "secs = fst (fold (split_section w) cs ([], - 1))"
    using secs f u0 by simp
  have "\<forall>t. cover_count secs t = cover_count [] t + cover_count cs t"
    unfolding s2 by (rule split_sections_count [OF region_width_pos [OF w]]) simp
  then show ?thesis using cnt by simp
qed

lemma update_absent: "k \<notin> fst ` set al \<Longrightarrow> AList.update k v al = al @ [(k, v)]"
  by (induction al) auto

lemma update_values: "x \<in> set (AList.update k v al) \<Longrightarrow> x = (k, v) \<or> x \<in> set al"
  by (induction al) (auto split: if_splits)


lemma region_area_tab_pixel:
  "rm_region_area (rmap (regionate_pixel u cov n sec p s)) =
     (if in_section sec p \<and> \<not> stays_in_region u cov n s then
        AList.update (region_iter s) (running_area s) (rm_region_area (rmap s))
      else rm_region_area (rmap s))"
  by (simp add: regionate_pixel_def)

lemma region_map_pixel:
  "rm_region_map (rmap (regionate_pixel u cov n sec p s)) =
     (if in_section sec p then
        AList.update (Pixnum p)
          (if stays_in_region u cov n s then region_iter s else wrap16 (region_iter s + 1))
          (rm_region_map (rmap s))
      else rm_region_map (rmap s))"
  by (simp add: regionate_pixel_def)

lemma regionate_inv_pixel:
  assumes "regionate_inv n s"
  shows "regionate_inv n (regionate_pixel u cov n sec p s)"
proof (cases "in_section sec p")
  case False
  then show ?thesis using assms by (simp add: regionate_pixel_def)
next
  case True
  let ?s' = "regionate_pixel u cov n sec p s"
  let ?r = "region_iter s"
  from assms have r0: "0 \<le> ?r" and rN: "?r \<le> int (unat n) - 1"
    and keys: "\<forall>x\<in>set (rm_region_area (rmap s)). 0 \<le> fst x \<and> fst x < ?r"
    and dist: "distinct (map fst (rm_region_area (rmap s)))"
    and total: "sum_list (map snd (rm_region_area (rmap s))) + running_area s = region_area s"
    and vals: "\<forall>x\<in>set (rm_region_map (rmap s)). 0 \<le> snd x \<and> snd x \<le> ?r"
    by (simp_all add: regionate_inv_def)
  show ?thesis
  proof (cases "stays_in_region u cov n s")
    case stay: True
    have it: "region_iter ?s' = ?r" and ra: "rm_region_area (rmap ?s') = rm_region_area (rmap s)"
      and run: "running_area ?s' = running_area s + Weight p * u"
      and tot: "region_area ?s' = region_area s + Weight p * u"
      and mp: "rm_region_map (rmap ?s') = AList.update (Pixnum p) ?r (rm_region_map (rmap s))"
      using True stay by (simp_all add: regionate_pixel_def)
    have v: "\<forall>x\<in>set (rm_region_map (rmap ?s')). 0 \<le> snd x \<and> snd x \<le> ?r"
      unfolding mp using vals r0 by (auto dest!: update_values)
    show ?thesis
      unfolding regionate_inv_def it ra run tot
      using r0 rN keys dist total v by simp
  next
    case adv: False
    have r: "?r < int (unat n) - 1"
      using rN adv by (auto simp: stays_in_region_def)
    have "uint n < 256" using uint_lt2p [of n] by simp
    then have w: "wrap16 (?r + 1) = ?r + 1" using r r0 by (intro wrap16_id) auto
    have absent: "?r \<notin> fst ` set (rm_region_area (rmap s))"
      using keys by auto
    have it: "region_iter ?s' = ?r + 1"
      and ra: "rm_region_area (rmap ?s') = rm_region_area (rmap s) @ [(?r, running_area s)]"
      and run: "running_area ?s' = Weight p * u"
      and tot: "region_area ?s' = region_area s + Weight p * u"
      and mp: "rm_region_map (rmap ?s') = AList.update (Pixnum p) (?r + 1) (rm_region_map (rmap s))"
      using True adv by (simp_all add: regionate_pixel_def w update_absent [OF absent])
    have v: "\<forall>x\<in>set (rm_region_map (rmap ?s')). 0 \<le> snd x \<and> snd x \<le> ?r + 1"
      unfolding mp using vals r0 by (auto dest!: update_values)
    have k: "\<forall>x\<in>set (rm_region_area (rmap s) @ [(?r, running_area s)]).
        0 \<le> fst x \<and> fst x < ?r + 1"
      using keys r0 by auto
    have d: "distinct (map fst (rm_region_area (rmap s) @ [(?r, running_area s)]))"
      using dist absent by simp
    show ?thesis
      unfolding regionate_inv_def it ra run tot
      using r0 r k d total v by simp
  qed
qed

text \<open>The accumulated area is the area of the pixels visited.\<close>

lemma region_area_pixel:
  "region_area (regionate_pixel u cov n sec p s) =
     region_area s + (if in_section sec p then Weight p * u else 0)"
  by (simp add: regionate_pixel_def)

lemma region_area_pixels:
  "region_area (fold (regionate_pixel u cov n sec) ps s) =
     region_area s + (\<Sum>p\<leftarrow>ps. if in_section sec p then Weight p * u else 0)"
  by (induction ps arbitrary: s) (simp_all add: region_area_pixel)

lemma region_area_loops:
  "region_area (regionate_loops u cov n secs s) =
     region_area s + (\<Sum>sec\<leftarrow>secs. \<Sum>p\<leftarrow>cov. if in_section sec p then Weight p * u else 0)"
  unfolding regionate_loops_def
  by (induction secs arbitrary: s) (simp_all add: region_area_pixels)

lemma sections_sum:
  "(\<Sum>sec\<leftarrow>secs. \<Sum>p\<leftarrow>cov. if in_section sec p then f p else 0) =
   (\<Sum>p\<leftarrow>cov. f p * real (cover_count secs (Stripe p)))" for f :: "pixel \<Rightarrow> real"
proof (induction secs)
  case Nil
  then show ?case by simp
next
  case (Cons sec secs)
  have "(\<Sum>p\<leftarrow>cov. if in_section sec p then f p else 0) +
        (\<Sum>p\<leftarrow>cov. f p * real (cover_count secs (Stripe p))) =
        (\<Sum>p\<leftarrow>cov. f p * real (cover_count (sec # secs) (Stripe p)))"
    by (induction cov) (auto simp: cover_count_def in_section_def covers_def algebra_simps)
  then show ?case using Cons by simp
qed

text \<open>Every pixel visited is a key of the region map from then on.\<close>

lemma keys_pixel:
  "key \<in> fst ` set (rm_region_map (rmap (regionate_pixel u cov n sec p s))) \<longleftrightarrow>
     key \<in> fst ` set (rm_region_map (rmap s)) \<or> (in_section sec p \<and> Pixnum p = key)"
  by (cases "in_section sec p") (auto simp add: region_map_pixel dom_update)

lemma keys_pixels:
  "key \<in> fst ` set (rm_region_map (rmap (fold (regionate_pixel u cov n sec) ps s))) \<longleftrightarrow>
     key \<in> fst ` set (rm_region_map (rmap s)) \<or>
     (\<exists>p\<in>set ps. in_section sec p \<and> Pixnum p = key)"
proof (induction ps arbitrary: s)
  case Nil
  then show ?case by simp
next
  case (Cons p ps)
  have "key \<in> fst ` set (rm_region_map (rmap (fold (regionate_pixel u cov n sec) (p # ps) s)))
    \<longleftrightarrow> key \<in> fst ` set (rm_region_map (rmap (regionate_pixel u cov n sec p s))) \<or>
     (\<exists>p\<in>set ps. in_section sec p \<and> Pixnum p = key)"
    using Cons.IH [of "regionate_pixel u cov n sec p s"] by simp
  then show ?case unfolding keys_pixel by auto
qed

lemma keys_loops:
  "key \<in> fst ` set (rm_region_map (rmap (regionate_loops u cov n secs s))) \<longleftrightarrow>
     key \<in> fst ` set (rm_region_map (rmap s)) \<or>
     (\<exists>sec\<in>set secs. \<exists>p\<in>set cov. in_section sec p \<and> Pixnum p = key)"
proof (induction secs arbitrary: s)
  case Nil
  then show ?case by (simp add: regionate_loops_def)
next
  case (Cons sec secs)
  let ?s1 = "fold (regionate_pixel u cov n sec) cov s"
  have unf: "regionate_loops u cov n (sec # secs) s = regionate_loops u cov n secs ?s1"
    by (simp add: regionate_loops_def)
  show ?case unfolding unf Cons.IH [of ?s1] keys_pixels by auto
qed

lemma regionate_inv_loops:
  assumes "regionate_inv n s"
  shows "regionate_inv n (regionate_loops u cov n secs s)"
proof -
  have inner: "regionate_inv n s \<Longrightarrow> regionate_inv n (fold (regionate_pixel u cov n sec) ps s)"
    for sec ps s
    by (induction ps arbitrary: s) (simp_all add: regionate_inv_pixel)
  show ?thesis using assms unfolding regionate_loops_def
    by (induction secs arbitrary: s) (simp_all add: inner)
qed

lemma RegionArea_value:
  "fst (RegionArea rm k) = (case map_of (rm_region_area rm) k of Some a \<Rightarrow> a | None \<Rightarrow> 0)"
  by (simp add: RegionArea_def map_index_def split: option.splits)

lemma alist_sum:
  fixes al :: "(int \<times> real) list"
  assumes "distinct (map fst al)" and "\<forall>x\<in>set al. 0 \<le> fst x \<and> fst x < int N"
  shows "(\<Sum>k<N. case map_of al (int k) of Some a \<Rightarrow> a | None \<Rightarrow> 0) = sum_list (map snd al)"
  using assms
proof (induction al)
  case Nil
  then show ?case by simp
next
  case (Cons x al)
  obtain k0 v0 where x: "x = (k0, v0)" by (cases x)
  have k0: "0 \<le> k0" "k0 < int N" using Cons.prems(2) x by auto
  have none: "map_of al k0 = None"
    using Cons.prems(1) x by (simp add: map_of_eq_None_iff)
  have split: "(case map_of (x # al) (int k) of Some a \<Rightarrow> a | None \<Rightarrow> 0) =
      (if k = nat k0 then v0 else 0) + (case map_of al (int k) of Some a \<Rightarrow> a | None \<Rightarrow> 0)"
    for k
    using k0 none x by (cases "int k = k0") auto
  have "(\<Sum>k<N. case map_of (x # al) (int k) of Some a \<Rightarrow> a | None \<Rightarrow> 0) =
      (\<Sum>k<N. if k = nat k0 then v0 else 0) +
      (\<Sum>k<N. case map_of al (int k) of Some a \<Rightarrow> a | None \<Rightarrow> 0)"
    by (simp only: split sum.distrib)
  also have "(\<Sum>k<N. if k = nat k0 then v0 else 0) = v0"
  proof -
    have "nat k0 < N" using k0 by linarith
    then show ?thesis by simp
  qed
  also have "(\<Sum>k<N. case map_of al (int k) of Some a \<Rightarrow> a | None \<Rightarrow> 0) = sum_list (map snd al)"
    using Cons by simp
  finally show ?case using x by simp
qed


lemma FindSections_regions: "FindSections c r us a n = Inr secs \<Longrightarrow> n \<noteq> 0"
  by (auto simp: FindSections_def region_width_def split: list.splits sum.splits if_splits)

text \<open>On a region map whose two tables are empty, as the constructor leaves them, and
  with the sections that \<open>_FindSections\<close> makes of the stripes of the covering pixels,
  \<open>_Regionate\<close> conserves the area: the areas \<open>RegionArea(k)\<close> of the regions
  \<open>k < N\<close>, which are all the areas of the table, add up to the footprint area, the sum
  of weight times pixel area over the covering pixels. Every covering pixel is a key of
  the region map, with one region index, which lies in \<open>[0, N)\<close>.\<close>

lemma regionate_conserves_area_empty_tables:
  assumes "coverage_pix \<noteq> []"
    and "rm_region_map rm = []" and "rm_region_area rm = []"
    and "FindSections c (rm_region_resolution rm) (FindUniqueStripes coverage_pix) a n
           = Inr sectionVec"
    and "rm' = Regionate c coverage_pix sectionVec n 0 rm"
  shows "(\<Sum>k<unat n. fst (RegionArea rm' (int k))) =
           (\<Sum>p\<leftarrow>coverage_pix. Weight p * PixelArea c (rm_region_resolution rm)) \<and>
         sum_list (map snd (rm_region_area rm')) =
           (\<Sum>p\<leftarrow>coverage_pix. Weight p * PixelArea c (rm_region_resolution rm)) \<and>
         (\<forall>p\<in>set coverage_pix.
            \<exists>!k. map_of (rm_region_map rm') (Pixnum p) = Some k \<and> 0 \<le> k \<and> k < int (unat n))"
proof -
  let ?u = "PixelArea c (rm_region_resolution rm)"
  let ?init = "\<lparr>region_area = 0, running_area = 0, region_iter = 0, rmap = rm\<rparr>"
  let ?fin = "regionate_loops ?u coverage_pix n sectionVec ?init"
  have n0: "n \<noteq> 0" using assms(4) by (rule FindSections_regions)
  have rm': "rm' = (rmap ?fin)\<lparr>rm_region_area :=
      AList.update (region_iter ?fin) (running_area ?fin) (rm_region_area (rmap ?fin))\<rparr>"
    using assms(5) by (simp add: Regionate_def Let_def)
  have "uint n \<noteq> 0" using n0 by (simp add: unsigned_eq_0_iff)
  moreover have "0 \<le> uint n" by simp
  ultimately have N: "0 < uint n" by linarith
  have inv0: "regionate_inv n ?init"
    using N assms(2,3) by (simp add: regionate_inv_def)
  have inv: "regionate_inv n ?fin" by (rule regionate_inv_loops [OF inv0])
  from inv have r0: "0 \<le> region_iter ?fin" and rN: "region_iter ?fin \<le> int (unat n) - 1"
    and keys: "\<forall>x\<in>set (rm_region_area (rmap ?fin)). 0 \<le> fst x \<and> fst x < region_iter ?fin"
    and dist: "distinct (map fst (rm_region_area (rmap ?fin)))"
    and total: "sum_list (map snd (rm_region_area (rmap ?fin))) + running_area ?fin = region_area ?fin"
    and vals: "\<forall>x\<in>set (rm_region_map (rmap ?fin)). 0 \<le> snd x \<and> snd x \<le> region_iter ?fin"
    unfolding regionate_inv_def by blast+
  have absent: "region_iter ?fin \<notin> fst ` set (rm_region_area (rmap ?fin))"
    using keys by auto
  have al: "rm_region_area rm' = rm_region_area (rmap ?fin) @ [(region_iter ?fin, running_area ?fin)]"
    and mp: "rm_region_map rm' = rm_region_map (rmap ?fin)"
    unfolding rm' by (simp_all add: update_absent [OF absent])
  have count: "cover_count sectionVec (Stripe p) = 1" if "p \<in> set coverage_pix" for p
    using FindSections_count [OF assms(4) FindUniqueStripes_props(1), of "Stripe p"] that
    by (simp add: FindUniqueStripes_props(2))
  have "region_area ?fin =
      (\<Sum>p\<leftarrow>coverage_pix. Weight p * ?u * real (cover_count sectionVec (Stripe p)))"
    by (simp add: region_area_loops sections_sum)
  also have "\<dots> = (\<Sum>p\<leftarrow>coverage_pix. Weight p * ?u)"
    by (rule arg_cong [where f = sum_list], rule map_cong) (simp_all add: count)
  finally have area: "region_area ?fin = (\<Sum>p\<leftarrow>coverage_pix. Weight p * ?u)" .
  have d': "distinct (map fst (rm_region_area rm'))"
    unfolding al using dist absent by simp
  have k': "\<forall>x\<in>set (rm_region_area rm'). 0 \<le> fst x \<and> fst x < int (unat n)"
    unfolding al using keys r0 rN by auto
  have "(\<Sum>k<unat n. fst (RegionArea rm' (int k))) = sum_list (map snd (rm_region_area rm'))"
    unfolding RegionArea_value by (rule alist_sum [OF d' k'])
  also have "\<dots> = region_area ?fin" unfolding al using total by simp
  finally have sum: "(\<Sum>k<unat n. fst (RegionArea rm' (int k))) =
      (\<Sum>p\<leftarrow>coverage_pix. Weight p * ?u)"
    using area by simp
  have assigned: "\<exists>!k. map_of (rm_region_map rm') (Pixnum p) = Some k \<and> 0 \<le> k \<and> k < int (unat n)"
    if p: "p \<in> set coverage_pix" for p
  proof -
    from count [OF p] have "cover_count sectionVec (Stripe p) \<noteq> 0" by simp
    then obtain sec where sec: "sec \<in> set sectionVec" "in_section sec p"
      by (auto simp: cover_count_def in_section_def covers_def filter_empty_conv)
    then have "Pixnum p \<in> fst ` set (rm_region_map (rmap ?fin))"
      unfolding keys_loops using p by blast
    then obtain k where k: "map_of (rm_region_map (rmap ?fin)) (Pixnum p) = Some k"
      by (metis map_of_eq_None_iff not_Some_eq)
    then have "(Pixnum p, k) \<in> set (rm_region_map (rmap ?fin))" by (rule map_of_SomeD)
    then have "0 \<le> k \<and> k \<le> region_iter ?fin" using vals by auto
    then show ?thesis using k rN unfolding mp by auto
  qed
  have "sum_list (map snd (rm_region_area rm')) = region_area ?fin"
    unfolding al using total by simp
  then show ?thesis using sum assigned area by simp
qed

lemma four_stripes: "FindUniqueStripes four_pixels = [2, 3]"
  by (simp add: FindUniqueStripes_def four_pixels_def four_pixels_fields)

lemma four_width: "region_width unit_core 4 12 3 = Inr 1" "region_width unit_core 4 12 2 = Inr 1"
proof -
  have "sqrt (12 / 3) = 2" using real_sqrt_abs [of 2] by simp
  then show "region_width unit_core 4 12 3 = Inr 1"
    by (simp add: region_width_def unit_core_def Let_def)
  have "sqrt 6 < 5 / 2" by (rule real_less_lsqrt) (simp_all add: power2_eq_square)
  moreover have "0 \<le> sqrt 6" by simp
  ultimately have "2 * sqrt 6 < 5" and "\<not> 640 \<le> sqrt 6"
    by simp_all
  then show "region_width unit_core 4 12 2 = Inr 1"
    by (simp add: region_width_def unit_core_def Let_def)
qed

lemma four_sections:
  "FindSections unit_core 4 [2, 3] 12 3 = Inr [stripe_two, stripe_three]"
  "FindSections unit_core 4 [2, 3] 12 2 = Inr [stripe_two, stripe_three]"
  by (simp_all add: FindSections_def four_width contiguous_step_def split_section_def
      section_step_def stripe_two_def stripe_three_def)

lemma regionate_conserves_area_example:
  "(\<Sum>k<unat (3::8 word).
      fst (RegionArea
             (Regionate unit_core four_pixels [stripe_two, stripe_three] 3 0 empty_at_4)
             (int k))) = 12"
proof -
  have h1: "four_pixels \<noteq> []" by (simp add: four_pixels_def)
  have h2: "rm_region_map empty_at_4 = []" and h3: "rm_region_area empty_at_4 = []"
    and res: "rm_region_resolution empty_at_4 = 4"
    by (simp_all add: empty_at_4_def new_RegionMap_def)
  have h4: "FindSections unit_core (rm_region_resolution empty_at_4)
      (FindUniqueStripes four_pixels) 12 3 = Inr [stripe_two, stripe_three]"
    by (simp only: res four_stripes four_sections)
  show ?thesis
    using regionate_conserves_area_empty_tables [OF h1 h2 h3 h4 refl, THEN conjunct1]
    unfolding res four_total(1) .
qed

lemma four_regionate_3:
  "Regionate unit_core four_pixels [stripe_two, stripe_three] 3 0 empty_at_4 =
     \<lparr>rm_region_map = [(10, 0), (11, 0), (12, 1), (13, 1)],
      rm_region_area = [(0, 2), (1, 10)], rm_n_region = 0, rm_region_resolution = 4\<rparr>"
proof -
  have res: "rm_region_resolution empty_at_4 = 4"
    by (simp add: empty_at_4_def new_RegionMap_def)
  have up: "[0..1] = [0, 1::int]" by (simp add: upto_rec1)
  have n: "(3::8 word) \<noteq> 0" by simp
  show ?thesis
    unfolding Regionate_sweep [OF n] res four_sweep four_total
    by (simp add: four_spec_regions four_zip four_pixels_fields up spec_region_area_def
        empty_at_4_def new_RegionMap_def)
qed


lemma four_regionate_2:
  "Regionate unit_core four_pixels [stripe_two, stripe_three] 2 0
     \<lparr>rm_region_map = [], rm_region_area = [(0, 2), (1, 10)], rm_n_region = 0,
      rm_region_resolution = 4\<rparr> =
     \<lparr>rm_region_map = [(10, 0), (11, 0), (12, 0), (13, 0)],
      rm_region_area = [(0, 12), (1, 10)], rm_n_region = 0, rm_region_resolution = 4\<rparr>"
proof -
  have n: "(2::8 word) \<noteq> 0" by simp
  show ?thesis
    unfolding Regionate_sweep [OF n]
    by (simp add: four_sweep four_total four_spec_regions four_zip four_pixels_fields
        spec_region_area_def)
qed

lemma replicate_small: "replicate 3 (0::nat) = [0, 0, 0]" "replicate 2 (0::nat) = [0, 0]"
  by (simp_all add: numeral_3_eq_3 numeral_2_eq_2)

lemma four_initialize_3:
  "InitializeRegions unit_core four_map 3 4 new_RegionMap = Inr three_asked"
proof -
  have res: "FindRegionResolution unit_core four_map 3 4 (ClearRegions new_RegionMap) =
      Inr empty_at_4"
    by (simp add: FindRegionResolution_def four_map_def ClearRegions_def new_RegionMap_def
        empty_at_4_def)
  have m: "Coverage four_map r = four_pixels" "Area four_map = 12" for r
    by (simp_all add: four_map_def)
  have r4: "rm_region_resolution empty_at_4 = 4"
    by (simp add: empty_at_4_def new_RegionMap_def)
  show ?thesis
    unfolding InitializeRegions_def res
    by (simp add: bind_fault_def Let_def m r4 four_total(3) four_stripes four_sections
        four_regionate_3 replicate_small three_asked_def)
qed

lemma four_initialize_2:
  "InitializeRegions unit_core four_map 2 4 three_asked = Inr two_asked"
proof -
  have res: "FindRegionResolution unit_core four_map 2 4 (ClearRegions three_asked) =
      Inr \<lparr>rm_region_map = [], rm_region_area = [(0, 2), (1, 10)], rm_n_region = 0,
           rm_region_resolution = 4\<rparr>"
    by (simp add: FindRegionResolution_def four_map_def ClearRegions_def three_asked_def)
  have m: "Coverage four_map r = four_pixels" "Area four_map = 12" for r
    by (simp_all add: four_map_def)
  show ?thesis
    unfolding InitializeRegions_def res
    by (simp add: bind_fault_def Let_def m four_total(3) four_stripes four_sections
        four_regionate_2 replicate_small two_asked_def)
qed

text \<open>
  Claim C6 fails on the code for a region map that is initialized a second time.
  \<open>ClearRegions\<close> empties \<open>region_map_\<close> and leaves \<open>region_area_\<close> as it is, so that
  \<open>_Regionate\<close> writes into the area table of the earlier regionation. For the four
  pixels of \<open>four_map\<close>, with footprint area 12, \<open>InitializeRegions\<close> for three regions
  on a new region map gives the regions 0 and 1 the areas 2 and 10. A second
  \<open>InitializeRegions\<close>, for two regions, assigns every pixel to region 0, stores the
  area 12 for it and leaves the area 10 of region 1 in the table: the areas of the table,
  and the areas \<open>RegionArea(0)\<close> and \<open>RegionArea(1)\<close> of the two regions asked for,
  add up to 22.
\<close>

theorem reinitialized_regions_keep_area:
  "InitializeRegions unit_core four_map 3 4 new_RegionMap = Inr three_asked \<and>
   InitializeRegions unit_core four_map 2 4 three_asked = Inr two_asked \<and>
   sum_list (map snd (rm_region_area two_asked)) = 22 \<and>
   fst (RegionArea two_asked 0) + fst (RegionArea two_asked 1) = 22 \<and>
   sum_list (map (\<lambda>p. Weight p * PixelArea unit_core 4) (Coverage four_map 4)) = 12"
proof -
  have "sum_list (map snd (rm_region_area two_asked)) = 22"
    by (simp add: two_asked_def)
  moreover have "fst (RegionArea two_asked 0) + fst (RegionArea two_asked 1) = 22"
    by (simp add: RegionArea_def map_index_def two_asked_def)
  moreover have "sum_list (map (\<lambda>p. Weight p * PixelArea unit_core 4) (Coverage four_map 4))
      = 12"
    using four_total(1) by (simp add: four_map_def)
  ultimately show ?thesis using four_initialize_3 four_initialize_2 by simp
qed

subsection \<open>One region per pixel\<close>

lemma wrap16_range: "- 32768 \<le> wrap16 x" "wrap16 x \<le> 32767"
  by (simp_all add: wrap16_def) 

lemma wrap16_add: "wrap16 (wrap16 x + y) = wrap16 (x + y)"
proof -
  have "wrap16 x + y + 32768 = (x + 32768) mod 65536 + y"
    by (simp add: wrap16_def)
  then have "(wrap16 x + y + 32768) mod 65536 = ((x + 32768) mod 65536 + y) mod 65536"
    by (rule arg_cong)
  also have "\<dots> = (x + 32768 + y) mod 65536" by (rule mod_add_left_eq)
  also have "x + 32768 + y = x + y + 32768" by simp
  finally show ?thesis unfolding wrap16_def by simp
qed

lemma region_per_pixel_step_pair:
  "region_per_pixel_step p (m, i) = (AList.update (Pixnum p) i m, wrap16 (i + 1))"
  by (simp add: region_per_pixel_step_def)

lemma per_pixel_values:
  assumes "\<forall>x\<in>set m. snd x \<le> 32767" and "i \<le> 32767"
  shows "\<forall>x\<in>set (fst (fold region_per_pixel_step ps (m, i))). snd x \<le> 32767"
  using assms
proof (induction ps arbitrary: m i)
  case Nil
  then show ?case by simp
next
  case (Cons p ps)
  have 1: "\<forall>x\<in>set (AList.update (Pixnum p) i m). snd x \<le> 32767"
    using Cons.prems by (auto dest!: update_values)
  show ?case using Cons.IH [OF 1 wrap16_range(2) [of "i + 1"]]
    by (simp add: region_per_pixel_step_pair)
qed

lemma per_pixel_other:
  "key \<notin> Pixnum ` set ps \<Longrightarrow>
   map_of (fst (fold region_per_pixel_step ps (m, i))) key = map_of m key"
  by (induction ps arbitrary: m i) (auto simp: region_per_pixel_step_pair update_conv')


lemma per_pixel_nth:
  assumes "distinct (map Pixnum ps)" and "j < length ps" and "wrap16 i = i"
  shows "map_of (fst (fold region_per_pixel_step ps (m, i))) (Pixnum (ps ! j)) =
           Some (wrap16 (i + int j))"
  using assms
proof (induction ps arbitrary: m i j)
  case Nil
  then show ?case by simp
next
  case (Cons p ps)
  show ?case
  proof (cases j)
    case 0
    have "Pixnum p \<notin> Pixnum ` set ps" using Cons.prems(1) by auto
    then show ?thesis using 0 Cons.prems(3)
      by (simp add: region_per_pixel_step_pair per_pixel_other update_conv')
  next
    case (Suc j')
    have d: "distinct (map Pixnum ps)" and l: "j' < length ps"
      using Cons.prems Suc by auto
    have w: "wrap16 (wrap16 (i + 1)) = wrap16 (i + 1)"
      using wrap16_add [of "i + 1" 0] by simp
    have "map_of (fst (fold region_per_pixel_step ps (AList.update (Pixnum p) i m, wrap16 (i + 1))))
        (Pixnum (ps ! j')) = Some (wrap16 (wrap16 (i + 1) + int j'))"
      by (rule Cons.IH [OF d l w])
    also have "wrap16 (wrap16 (i + 1) + int j') = wrap16 (i + 1 + int j')"
      by (rule wrap16_add)
    also have "i + 1 + int j' = i + int j" using Suc by simp
    finally show ?thesis using Suc by (simp add: region_per_pixel_step_pair)
  qed
qed

lemma many_pixels_props:
  "length many_pixels = pixel_count"
  "j < pixel_count \<Longrightarrow> Pixnum (many_pixels ! j) = j"
  by (simp_all add: many_pixels_def)

lemma many_pixels_distinct: "distinct (map Pixnum many_pixels)"
proof -
  have "map Pixnum many_pixels = [0..<pixel_count]"
    unfolding many_pixels_def map_map by (rule map_idI) simp
  then show ?thesis by simp
qed

text \<open>The counting loop returns only if every index is in range, and it runs out of the
  vector if no index is too large and one is negative.\<close>

lemma count_regions_returns:
  "count_regions n es cnt = Inr cnt' \<Longrightarrow> \<forall>e\<in>set es. 0 \<le> snd e \<and> snd e < int n"
  by (induction n es cnt rule: count_regions.induct) (auto split: if_splits)

lemma count_regions_negative:
  assumes "\<forall>e\<in>set es. snd e < int n" and "\<exists>e\<in>set es. snd e < 0" and "length cnt = n"
  shows "count_regions n es cnt = Inl OutOfRange"
  using assms
proof (induction n es cnt rule: count_regions.induct)
  case (1 n cnt)
  then show ?case by simp
next
  case (2 n pixnum region rest cnt)
  show ?case
  proof (cases "region < 0")
    case True
    then show ?thesis using "2.prems"(1) by simp
  next
    case False
    then have r: "region < int n" "0 \<le> region" "nat region < length cnt"
      using "2.prems"(1,3) by auto
    have rest: "\<exists>e\<in>set rest. snd e < 0" using "2.prems"(2) False by auto
    have "count_regions n rest (cnt[nat region := cnt ! nat region + 1]) = Inl OutOfRange"
      using "2.IH" [OF r(1)] r(2,3) "2.prems"(1,3) rest by simp
    then show ?thesis using r by simp
  qed
qed

text \<open>After a normal return of \<open>InitializeRegions\<close> every stored region index is at
  least 0 and below the number of regions asked for.\<close>

lemma initialize_regions_checked:
  assumes "InitializeRegions c m n res rm = Inr rm'"
  shows "\<forall>x\<in>set (rm_region_map rm'). 0 \<le> snd x \<and> snd x < int (unat n)"
proof -
  from assms obtain rm1 where
    r1: "FindRegionResolution c m n res (ClearRegions rm) = Inr rm1"
    by (cases "FindRegionResolution c m n res (ClearRegions rm)")
       (simp_all add: InitializeRegions_def bind_fault_def)
  define cov where "cov = Coverage m (rm_region_resolution rm1)"
  define n' :: "16 word" where "n' = (if unat n > length cov then of_nat (length cov) else n)"
  have le: "unat n' \<le> unat n"
  proof (cases "unat n > length cov")
    case True
    have "unat (of_nat (length cov) :: 16 word) \<le> length cov"
      by (simp add: unat_of_nat)
    then show ?thesis using True by (simp add: n'_def)
  next
    case False
    then show ?thesis by (simp add: n'_def)
  qed
  define mid where "mid =
       (if unat n' = length cov then
          Inr (rm1\<lparr>rm_region_map := region_per_pixel cov (rm_region_map rm1)\<rparr>)
        else
          bind_fault
            (FindSections c (rm_region_resolution rm1) (FindUniqueStripes cov)
               (Area m) (ucast n'))
            (\<lambda>sectionVec. Inr (Regionate c cov sectionVec (ucast n') 0 rm1)))"
  have unf: "InitializeRegions c m n res rm =
      bind_fault mid (\<lambda>rm2.
        bind_fault
          (count_regions (unat n') (sort_key fst (rm_region_map rm2)) (replicate (unat n') 0))
          (\<lambda>region_count_check.
             Inr (rm2\<lparr>rm_n_region := of_nat (length (rm_region_area rm2))\<rparr>)))"
    unfolding InitializeRegions_def r1 mid_def n'_def cov_def
    by (simp only: bind_fault_def sum.case Let_def)
  from assms obtain rm2 cnt' where
    chk: "count_regions (unat n') (sort_key fst (rm_region_map rm2)) (replicate (unat n') 0)
            = Inr cnt'"
    and rm': "rm' = rm2\<lparr>rm_n_region := of_nat (length (rm_region_area rm2))\<rparr>"
    unfolding unf by (cases mid) (auto simp: bind_fault_def split: sum.splits)
  have "0 \<le> snd x \<and> snd x < int (unat n)" if "x \<in> set (rm_region_map rm2)" for x
  proof -
    from count_regions_returns [OF chk] that
    have "0 \<le> snd x \<and> snd x < int (unat n')" by simp
    moreover have "int (unat n') \<le> int (unat n)" using le by (simp only: of_nat_le_iff)
    ultimately show ?thesis by linarith
  qed
  then show ?thesis unfolding rm' by simp
qed

lemma many_pixels_last: "map_of (region_per_pixel many_pixels []) 32768 = Some (- 32768)"
proof -
  have j: "(32768::nat) < length many_pixels"
    using many_pixels_props(1) by (simp add: pixel_count_def)
  have w: "wrap16 0 = 0" by (simp add: wrap16_def)
  have "Pixnum (many_pixels ! 32768) = 32768"
    by (rule many_pixels_props(2)) (simp add: pixel_count_def)
  then show ?thesis
    using per_pixel_nth [OF many_pixels_distinct j w, of "[]"]
    by (simp add: region_per_pixel_def wrap16_def)
qed

text \<open>
  Claim C7 fails on the code for a map with more than 32768 covering pixels and at least
  as many regions asked for. For the 32769 pixels of \<open>many_map\<close> and
  \<open>n_region = 32769\<close>, \<open>InitializeRegions\<close> gives every pixel a region of its own,
  counted in an \<open>int16_t\<close> that wraps after 32767, so that pixel 32768 is stored with
  region -32768. The test \<open>iter->second < n_region\<close> accepts the negative index, and
  the call does not leave with \<open>exit(2)\<close>: it goes on to index \<open>region_count_check\<close>
  at -32768, out of range.
\<close>

theorem initialize_regions_negative_index:
  "map_of (region_per_pixel many_pixels []) 32768 = Some (- 32768) \<and>
   InitializeRegions c many_map 32769 4 new_RegionMap = Inl OutOfRange"
proof -
  have len: "length many_pixels = 32769"
    using many_pixels_props(1) by (simp add: pixel_count_def)
  have vals: "\<forall>x\<in>set (region_per_pixel many_pixels []). snd x \<le> 32767"
    unfolding region_per_pixel_def by (rule per_pixel_values) simp_all
  have "(32768, - 32768) \<in> set (region_per_pixel many_pixels [])"
    using many_pixels_last by (rule map_of_SomeD)
  then have neg: "\<exists>e\<in>set (sort_key fst (region_per_pixel many_pixels [])). snd e < 0"
    by force
  have below: "\<forall>e\<in>set (sort_key fst (region_per_pixel many_pixels [])). snd e < int 32769"
    using vals by fastforce
  have count: "count_regions 32769 (sort_key fst (region_per_pixel many_pixels []))
      (replicate 32769 0) = Inl OutOfRange"
    by (rule count_regions_negative [OF below neg]) simp
  have res: "FindRegionResolution c many_map 32769 4 (ClearRegions new_RegionMap) =
      Inr (new_RegionMap\<lparr>rm_region_resolution := 4\<rparr>)"
    by (simp add: FindRegionResolution_def many_map_def ClearRegions_def new_RegionMap_def)
  have cov: "Coverage many_map 4 = many_pixels" by (simp add: many_map_def)
  have "InitializeRegions c many_map 32769 4 new_RegionMap = Inl OutOfRange"
    unfolding InitializeRegions_def res
    using count by (simp add: bind_fault_def cov len Let_def new_RegionMap_def)
  then show ?thesis using many_pixels_last by simp
qed

section \<open>Properties of field\_union\<close>

lemma to_over_density_all:
  assumes "m \<noteq> 0" and "\<forall>p\<in>set ps. unmasked_weight p \<noteq> 0"
  shows "map_fault (to_over_density m) ps =
     Inr (map (\<lambda>p. p\<lparr>intensity := intensity p / unmasked_weight p / m - 1\<rparr>) ps)"
  using assms(2)
  by (induction ps) (simp_all add: to_over_density_def bind_fault_def ddiv_def assms(1))

lemma from_to_over_density:
  assumes "m \<noteq> 0" and "unmasked_weight p \<noteq> 0"
  shows "from_over_density m (p\<lparr>intensity := intensity p / unmasked_weight p / m - 1\<rparr>) = p"
  using assms by (simp add: from_over_density_def)

text \<open>
  Claim C8, as stated, fails on the conversion as the spec gives it: \<open>empty_field\<close> has
  positive total weight, but its total intensity and with it its mean intensity is 0, and
  \<open>intensity/weight/mean\<close> is not a finite number. The conversion to over-density has no
  intensities to give back.
\<close>

theorem over_density_round_trip_counterexample:
  "0 < sum_list (map unmasked_weight (pixels empty_field)) \<and>
   convert_to_over_density empty_field = Inl NotFinite"
  by (simp add: empty_field_def convert_to_over_density_def calculate_mean_intensity_def
      to_over_density_def bind_fault_def ddiv_def)

text \<open>
  Claim C8, amended. For a field union with positive total weight, a total intensity
  other than 0 and no pixel of weight 0, \<open>convert_to_over_density\<close> returns without a
  fault, and \<open>convert_from_over_density\<close> after it gives every pixel its intensity
  back: exactly, in real arithmetic, and so within a relative error of 1e-12.
\<close>

theorem over_density_round_trip:
  assumes "0 < (\<Sum>p\<leftarrow>pixels fu. unmasked_weight p)"
    and "(\<Sum>p\<leftarrow>pixels fu. intensity p) \<noteq> 0"
    and "\<forall>p\<in>set (pixels fu). unmasked_weight p \<noteq> 0"
  shows "\<exists>fu'. convert_to_over_density fu = Inr fu' \<and>
           converted_to_overdensity fu' \<and>
           pixels (convert_from_over_density fu') = pixels fu \<and>
           \<not> converted_to_overdensity (convert_from_over_density fu')"
proof -
  let ?m = "(\<Sum>p\<leftarrow>pixels fu. intensity p) / (\<Sum>p\<leftarrow>pixels fu. unmasked_weight p)"
  have m: "?m \<noteq> 0" using assms(1,2) by simp
  have mean: "calculate_mean_intensity fu =
      Inr (fu\<lparr>mean_intensity := ?m, calculated_mean_intensity := True\<rparr>)"
    using assms(1) by (simp add: calculate_mean_intensity_def bind_fault_def ddiv_def)
  have fwd: "convert_to_over_density fu =
      Inr (fu\<lparr>mean_intensity := ?m, calculated_mean_intensity := True,
             pixels := map (\<lambda>p. p\<lparr>intensity := intensity p / unmasked_weight p / ?m - 1\<rparr>)
                         (pixels fu),
             converted_to_overdensity := True\<rparr>)"
    unfolding convert_to_over_density_def mean
    by (simp add: bind_fault_def to_over_density_all [OF m assms(3)])
  have undo: "map (from_over_density ?m)
      (map (\<lambda>p. p\<lparr>intensity := intensity p / unmasked_weight p / ?m - 1\<rparr>) (pixels fu))
      = pixels fu"
    unfolding map_map o_def
  proof (rule map_idI)
    fix p assume "p \<in> set (pixels fu)"
    then have "unmasked_weight p \<noteq> 0" using assms(3) by blast
    then show "from_over_density ?m
        (p\<lparr>intensity := intensity p / unmasked_weight p / ?m - 1\<rparr>) = p"
      by (rule from_to_over_density [OF m])
  qed
  show ?thesis unfolding fwd using undo
    by (simp add: convert_from_over_density_def)
qed

theorem over_density_round_trip_witness:
  "0 < (\<Sum>p\<leftarrow>pixels two_pixel_field. unmasked_weight p) \<and>
   (\<exists>fu'. convert_to_over_density two_pixel_field = Inr fu' \<and>
           converted_to_overdensity fu' \<and>
           pixels (convert_from_over_density fu') = pixels two_pixel_field \<and>
           \<not> converted_to_overdensity (convert_from_over_density fu'))"
  using over_density_round_trip [of two_pixel_field]
  by (simp add: two_pixel_field_def)

end
